theory Spec2Isabelle
  imports Complex_Main "HOL-Library.Multiset"
begin

section \<open>The debt-payoff simulator of budget_app.py\<close>

text \<open>
  The functions \<open>calculate_payoff\<close>, \<open>snowball\<close>, \<open>avalanche\<close> and \<open>simulate\<close>
  of \<^verbatim>\<open>src/budget_app.py\<close> are embedded here. Amounts and rates are Python numbers
  (the form delivers integers and floats); they are modelled as exact rationals, so that
  \<open>+\<close>, \<open>-\<close>, \<open>*\<close> and \<open>/\<close> are the arithmetic the code writes down, without rounding.
  A loan is the dictionary with the keys \<open>name\<close>, \<open>balance\<close>, \<open>rate\<close> and
  \<open>min_payment\<close> that the form builds.
\<close>

record loan =
  name :: string
  balance :: rat
  rate :: rat
  min_payment :: rat

datatype error = IndexError

subsection \<open>calculate_payoff\<close>

text \<open>
  The state of the \<^verbatim>\<open>while\<close> loop of \<open>calculate_payoff\<close>: the local variables
  \<open>balance\<close>, \<open>months\<close> and \<open>total_interest\<close> (the names of the record fields of a
  loan are taken, so the locals carry the prefix \<open>cp_\<close>).
\<close>

record payoff_state =
  cp_balance :: rat
  cp_months :: nat
  cp_total_interest :: rat

definition payoff_guard :: "payoff_state \<Rightarrow> bool" where
  "payoff_guard s \<longleftrightarrow> cp_balance s > 0 \<and> cp_months s < 600"

definition payoff_body :: "rat \<Rightarrow> rat \<Rightarrow> payoff_state \<Rightarrow> payoff_state" where
  "payoff_body rt monthly_payment s =
     (let interest = cp_balance s * (rt / 100 / 12);
          b1 = cp_balance s + interest;
          b2 = b1 - monthly_payment;
          b3 = (if b2 < 0 then 0 else b2)
      in \<lparr>cp_balance = b3, cp_months = cp_months s + 1,
          cp_total_interest = cp_total_interest s + interest\<rparr>)"

function payoff_loop :: "rat \<Rightarrow> rat \<Rightarrow> payoff_state \<Rightarrow> payoff_state" where
  "payoff_loop rt monthly_payment s =
     (if payoff_guard s then payoff_loop rt monthly_payment (payoff_body rt monthly_payment s)
      else s)"
  by pat_completeness auto
termination
  by (relation "measure (\<lambda>(rt, monthly_payment, s). 600 - cp_months s)")
     (auto simp: payoff_guard_def payoff_body_def Let_def)

declare payoff_loop.simps [simp del]

definition calculate_payoff :: "rat \<Rightarrow> rat \<Rightarrow> rat \<Rightarrow> nat \<times> rat" where
  "calculate_payoff bal rt monthly_payment =
     (let s = payoff_loop rt monthly_payment
                \<lparr>cp_balance = bal, cp_months = 0, cp_total_interest = 0\<rparr>
      in (cp_months s, cp_total_interest s))"

text \<open>The state after the first \<open>k\<close> iterations of the loop (fewer when the loop has left).\<close>

fun payoff_iter :: "nat \<Rightarrow> rat \<Rightarrow> rat \<Rightarrow> payoff_state \<Rightarrow> payoff_state" where
  "payoff_iter 0 rt monthly_payment s = s"
| "payoff_iter (Suc k) rt monthly_payment s =
     (if payoff_guard s then payoff_iter k rt monthly_payment (payoff_body rt monthly_payment s)
      else s)"

subsection \<open>simulate\<close>

text \<open>
  One pass of the \<^verbatim>\<open>for loan in loans\<close> loop of a month: a loan whose balance is not
  positive is skipped; any other accrues its interest and pays
  \<open>min(min_payment, balance)\<close> out of the pool \<open>extra_left\<close>. The pass returns the
  loans, \<open>total_interest\<close> and \<open>extra_left\<close>.
\<close>

fun pay_minimums :: "loan list \<Rightarrow> rat \<Rightarrow> rat \<Rightarrow> loan list \<times> rat \<times> rat" where
  "pay_minimums [] total_interest extra_left = ([], total_interest, extra_left)"
| "pay_minimums (l # ls) total_interest extra_left =
     (if balance l \<le> 0 then
        (case pay_minimums ls total_interest extra_left of
           (ls', ti', el') \<Rightarrow> (l # ls', ti', el'))
      else
        (let interest = balance l * (rate l / 100 / 12);
             b1 = balance l + interest;
             pay = min (min_payment l) b1
         in case pay_minimums ls (total_interest + interest) (extra_left - pay) of
              (ls', ti', el') \<Rightarrow> (l\<lparr>balance := b1 - pay\<rparr> # ls', ti', el')))"

text \<open>
  \<^verbatim>\<open>next((l for l in loans if l["balance"] > 0), None)\<close>: the position of the first loan
  with a positive balance.
\<close>

fun first_positive :: "loan list \<Rightarrow> nat option" where
  "first_positive [] = None"
| "first_positive (l # ls) =
     (if balance l > 0 then Some 0 else map_option Suc (first_positive ls))"

text \<open>
  \<^verbatim>\<open>loans[0] if loans[0]["balance"] > 0 else next(...)\<close>: the target of the extra
  payment, as a position in the list. \<^verbatim>\<open>loans[0]\<close> raises on an empty list.
\<close>

definition select_target :: "loan list \<Rightarrow> error + nat option" where
  "select_target ls =
     (case ls of
        [] \<Rightarrow> Inl IndexError
      | l0 # _ \<Rightarrow> if balance l0 > 0 then Inr (Some 0) else Inr (first_positive ls))"

definition apply_extra :: "loan list \<Rightarrow> rat \<Rightarrow> error + loan list" where
  "apply_extra ls extra_left =
     (case select_target ls of
        Inl e \<Rightarrow> Inl e
      | Inr None \<Rightarrow> Inr ls
      | Inr (Some i) \<Rightarrow>
          (let target_loan = ls ! i;
               pay = min extra_left (balance target_loan)
           in Inr (ls[i := target_loan\<lparr>balance := balance target_loan - pay\<rparr>])))"

record sim_state =
  st_loans :: "loan list"
  st_months :: nat
  st_total_interest :: rat

definition sim_guard :: "sim_state \<Rightarrow> bool" where
  "sim_guard s \<longleftrightarrow> list_ex (\<lambda>l. balance l > 0) (st_loans s) \<and> st_months s < 600"

definition month_step :: "rat \<Rightarrow> sim_state \<Rightarrow> error + sim_state" where
  "month_step extra s =
     (case pay_minimums (st_loans s) (st_total_interest s) extra of
        (ls1, ti1, el1) \<Rightarrow>
          (let extra_left = max 0 el1
           in case (if extra_left > 0 then apply_extra ls1 extra_left else Inr ls1) of
                Inl e \<Rightarrow> Inl e
              | Inr ls2 \<Rightarrow>
                  Inr \<lparr>st_loans = ls2, st_months = st_months s + 1, st_total_interest = ti1\<rparr>))"

function simulate_loop :: "rat \<Rightarrow> sim_state \<Rightarrow> error + sim_state" where
  "simulate_loop extra s =
     (if sim_guard s then
        (case month_step extra s of Inl e \<Rightarrow> Inl e | Inr s' \<Rightarrow> simulate_loop extra s')
      else Inr s)"
  by pat_completeness auto
termination
  by (relation "measure (\<lambda>(extra, s). 600 - st_months s)")
     (auto simp: sim_guard_def month_step_def Let_def split: prod.splits sum.splits if_splits)

declare simulate_loop.simps [simp del]

text \<open>
  \<open>simulate\<close> first copies every loan (\<^verbatim>\<open>[loan.copy() for loan in loans]\<close>). On values the
  copy of a loan is the loan; the copies as objects of their own are the subject of the
  store model below.
\<close>

definition simulate :: "loan list \<Rightarrow> rat \<Rightarrow> error + nat \<times> rat" where
  "simulate lns extra =
     (let ls = map (\<lambda>l. l) lns
      in case simulate_loop extra \<lparr>st_loans = ls, st_months = 0, st_total_interest = 0\<rparr> of
           Inl e \<Rightarrow> Inl e
         | Inr s \<Rightarrow> Inr (st_months s, st_total_interest s))"

text \<open>The state after the first \<open>k\<close> months of the loop (fewer when the loop has left).\<close>

fun simulate_iter :: "nat \<Rightarrow> rat \<Rightarrow> sim_state \<Rightarrow> error + sim_state" where
  "simulate_iter 0 extra s = Inr s"
| "simulate_iter (Suc k) extra s =
     (if sim_guard s then
        (case month_step extra s of Inl e \<Rightarrow> Inl e | Inr s' \<Rightarrow> simulate_iter k extra s')
      else Inr s)"

subsection \<open>snowball and avalanche\<close>

text \<open>
  \<^verbatim>\<open>sorted(xs, key=f, reverse=r)\<close> is Python's built-in stable sort. With
  \<^verbatim>\<open>reverse=True\<close> it sorts descending and still keeps elements with equal keys in
  their original order: the list is reversed, sorted ascending and reversed again.
\<close>

definition py_sorted :: "('a \<Rightarrow> 'k::linorder) \<Rightarrow> bool \<Rightarrow> 'a list \<Rightarrow> 'a list" where
  "py_sorted key reverse xs =
     (if reverse then rev (sort_key key (rev xs)) else sort_key key xs)"

definition snowball_order :: "loan list \<Rightarrow> loan list" where
  "snowball_order lns = py_sorted balance False lns"

definition avalanche_order :: "loan list \<Rightarrow> loan list" where
  "avalanche_order lns = py_sorted rate True lns"

definition snowball :: "loan list \<Rightarrow> rat \<Rightarrow> error + nat \<times> rat" where
  "snowball lns extra = simulate (snowball_order lns) extra"

definition avalanche :: "loan list \<Rightarrow> rat \<Rightarrow> error + nat \<times> rat" where
  "avalanche lns extra = simulate (avalanche_order lns) extra"

subsection \<open>The loans as objects in a store\<close>

text \<open>
  In Python the loans are dictionaries, which \<open>simulate\<close> reaches through references and
  updates in place. Here the store is the list of all dictionaries allocated so far, an
  address is a position in it, and a Python list of loans is a list of addresses. Every
  address a caller passes is below the length of the store. \<^verbatim>\<open>loan.copy()\<close> allocates
  a new dictionary at the end of the store; \<^verbatim>\<open>sorted\<close> builds a new list of the same
  addresses. The functions below follow the source statement by statement, reading and
  writing the store at the addresses of the list they are given; each returns the store
  it leaves, so that the store after a call can be compared with the store before it.
\<close>

type_synonym addr = nat
type_synonym store = "loan list"

definition copy_loan :: "store \<Rightarrow> addr \<Rightarrow> store \<times> addr" where
  "copy_loan h a = (h @ [h ! a], length h)"

fun copy_loans :: "store \<Rightarrow> addr list \<Rightarrow> store \<times> addr list" where
  "copy_loans h [] = (h, [])"
| "copy_loans h (a # as) =
     (case copy_loan h a of
        (h1, a') \<Rightarrow> (case copy_loans h1 as of (h2, as') \<Rightarrow> (h2, a' # as')))"

fun pay_minimums_st :: "addr list \<Rightarrow> store \<Rightarrow> rat \<Rightarrow> rat \<Rightarrow> store \<times> rat \<times> rat" where
  "pay_minimums_st [] h total_interest extra_left = (h, total_interest, extra_left)"
| "pay_minimums_st (a # as) h total_interest extra_left =
     (if balance (h ! a) \<le> 0 then pay_minimums_st as h total_interest extra_left
      else
        (let interest = balance (h ! a) * (rate (h ! a) / 100 / 12);
             h1 = h[a := (h ! a)\<lparr>balance := balance (h ! a) + interest\<rparr>];
             pay = min (min_payment (h1 ! a)) (balance (h1 ! a));
             h2 = h1[a := (h1 ! a)\<lparr>balance := balance (h1 ! a) - pay\<rparr>]
         in pay_minimums_st as h2 (total_interest + interest) (extra_left - pay)))"

definition select_target_st :: "addr list \<Rightarrow> store \<Rightarrow> error + addr option" where
  "select_target_st loans h =
     (case loans of
        [] \<Rightarrow> Inl IndexError
      | a0 # _ \<Rightarrow>
          if balance (h ! a0) > 0 then Inr (Some a0)
          else Inr (find (\<lambda>a. balance (h ! a) > 0) loans))"

definition apply_extra_st :: "addr list \<Rightarrow> store \<Rightarrow> rat \<Rightarrow> error + store" where
  "apply_extra_st loans h extra_left =
     (case select_target_st loans h of
        Inl e \<Rightarrow> Inl e
      | Inr None \<Rightarrow> Inr h
      | Inr (Some a) \<Rightarrow>
          (let pay = min extra_left (balance (h ! a))
           in Inr (h[a := (h ! a)\<lparr>balance := balance (h ! a) - pay\<rparr>])))"

definition month_step_st ::
  "addr list \<Rightarrow> rat \<Rightarrow> store \<times> nat \<times> rat \<Rightarrow> error + store \<times> nat \<times> rat" where
  "month_step_st loans extra s =
     (case s of (h, months, total_interest) \<Rightarrow>
        (case pay_minimums_st loans h total_interest extra of
           (h1, ti1, el1) \<Rightarrow>
             (let extra_left = max 0 el1
              in case (if extra_left > 0 then apply_extra_st loans h1 extra_left else Inr h1) of
                   Inl e \<Rightarrow> Inl e
                 | Inr h2 \<Rightarrow> Inr (h2, months + 1, ti1))))"

function simulate_loop_st ::
  "addr list \<Rightarrow> rat \<Rightarrow> store \<times> nat \<times> rat \<Rightarrow> error + store \<times> nat \<times> rat" where
  "simulate_loop_st loans extra (h, months, total_interest) =
     (if list_ex (\<lambda>a. balance (h ! a) > 0) loans \<and> months < 600 then
        (case month_step_st loans extra (h, months, total_interest) of
           Inl e \<Rightarrow> Inl e
         | Inr s' \<Rightarrow> simulate_loop_st loans extra s')
      else Inr (h, months, total_interest))"
  by pat_completeness auto
termination
  by (relation "measure (\<lambda>(loans, extra, h, months, total_interest). 600 - months)")
     (auto simp: month_step_st_def Let_def split: prod.splits sum.splits if_splits)

declare simulate_loop_st.simps [simp del]

definition simulate_st :: "store \<Rightarrow> addr list \<Rightarrow> rat \<Rightarrow> error + store \<times> nat \<times> rat" where
  "simulate_st h loans extra =
     (case copy_loans h loans of (h0, loans') \<Rightarrow> simulate_loop_st loans' extra (h0, 0, 0))"

definition snowball_st :: "store \<Rightarrow> addr list \<Rightarrow> rat \<Rightarrow> error + store \<times> nat \<times> rat" where
  "snowball_st h loans extra =
     simulate_st h (py_sorted (\<lambda>x. balance (h ! x)) False loans) extra"

definition avalanche_st :: "store \<Rightarrow> addr list \<Rightarrow> rat \<Rightarrow> error + store \<times> nat \<times> rat" where
  "avalanche_st h loans extra =
     simulate_st h (py_sorted (\<lambda>x. rate (h ! x)) True loans) extra"

text \<open>The two-loan input of the hand-traced examples.\<close>

definition two_loans :: "loan list" where
  "two_loans =
     [\<lparr>name = ''A'', balance = 100, rate = 5, min_payment = 10\<rparr>,
      \<lparr>name = ''B'', balance = 50, rate = 20, min_payment = 10\<rparr>]"

text \<open>A state in the middle of a run: the first loan is paid off, the second is not.\<close>

definition mid_state :: sim_state where
  "mid_state =
     \<lparr>st_loans = [\<lparr>name = ''A'', balance = 0, rate = 5, min_payment = 10\<rparr>,
                  \<lparr>name = ''B'', balance = 50, rate = 20, min_payment = 10\<rparr>],
      st_months = 3, st_total_interest = 7\<rparr>"

text \<open>
  Two inputs outside the documented domain: a loan with a negative minimum payment, and a
  loan with a rate below \<open>-1200\<close> percent, whose monthly interest exceeds its balance.
\<close>

definition neg_min_loans :: "loan list" where
  "neg_min_loans =
     [\<lparr>name = ''B'', balance = 10, rate = 12, min_payment = 10\<rparr>,
      \<lparr>name = ''A'', balance = 10, rate = 0, min_payment = - 20\<rparr>]"

definition neg_rate_loans :: "loan list" where
  "neg_rate_loans =
     [\<lparr>name = ''A'', balance = 10, rate = - 2400, min_payment = 0\<rparr>,
      \<lparr>name = ''B'', balance = 10, rate = 0, min_payment = 0\<rparr>]"

text \<open>
  The loans and the states of the run on the two-loan input, in the order both
  strategies give it: parameters are the balances of the 20 percent loan and of the 5
  percent loan, the months and the interest so far.
\<close>

definition run_loans :: "rat \<Rightarrow> rat \<Rightarrow> loan list" where
  "run_loans b a =
     [\<lparr>name = ''B'', balance = b, rate = 20, min_payment = 10\<rparr>,
      \<lparr>name = ''A'', balance = a, rate = 5, min_payment = 10\<rparr>]"

definition run_state :: "rat \<Rightarrow> rat \<Rightarrow> nat \<Rightarrow> rat \<Rightarrow> sim_state" where
  "run_state b a m ti = \<lparr>st_loans = run_loans b a, st_months = m, st_total_interest = ti\<rparr>"

section \<open>Basic facts\<close>

lemma pay_minimums_length: "length (fst (pay_minimums ls ti el)) = length ls"
  by (induction ls arbitrary: ti el) (simp_all add: Let_def case_prod_beta)

lemma payoff_loop_months: "cp_months s \<le> 600 \<Longrightarrow> cp_months (payoff_loop rt mp s) \<le> 600"
proof (induction rt mp s rule: payoff_loop.induct)
  case (1 rt mp s)
  show ?case
  proof (cases "payoff_guard s")
    case True
    then have "cp_months (payoff_body rt mp s) \<le> 600"
      by (simp add: payoff_guard_def payoff_body_def Let_def)
    with "1.IH" True show ?thesis
      by (subst payoff_loop.simps) simp
  next
    case False
    with "1.prems" show ?thesis
      by (subst payoff_loop.simps) simp
  qed
qed

lemma select_target_ok: "ls \<noteq> [] \<Longrightarrow> \<exists>t. select_target ls = Inr t"
  by (cases ls) (simp_all add: select_target_def)

lemma first_positive_less: "first_positive ls = Some i \<Longrightarrow> i < length ls \<and> balance (ls ! i) > 0"
proof (induction ls arbitrary: i)
  case Nil
  then show ?case by simp
next
  case (Cons l ls)
  show ?case
  proof (cases "balance l > 0")
    case True
    with Cons.prems show ?thesis by simp
  next
    case False
    with Cons.prems obtain j where j: "first_positive ls = Some j" and i: "i = Suc j"
      by auto
    from Cons.IH [OF j] i show ?thesis by simp
  qed
qed

lemma first_positive_None: "first_positive ls = None \<longleftrightarrow> \<not> list_ex (\<lambda>l. balance l > 0) ls"
  by (induction ls) simp_all

lemma select_target_Some:
  "select_target ls = Inr (Some i) \<Longrightarrow> i < length ls \<and> balance (ls ! i) > 0"
  by (cases ls) (auto simp: select_target_def split: if_splits dest: first_positive_less)

lemma apply_extra_ok: "ls \<noteq> [] \<Longrightarrow> \<exists>ls'. apply_extra ls el = Inr ls'"
  using select_target_ok [of ls]
  by (auto simp: apply_extra_def Let_def split: option.splits)

lemma apply_extra_length: "apply_extra ls el = Inr ls' \<Longrightarrow> length ls' = length ls"
  by (auto simp: apply_extra_def Let_def split: sum.splits option.splits)

lemma month_step_ok:
  assumes "st_loans s \<noteq> []"
  shows "\<exists>s'. month_step extra s = Inr s'"
proof -
  obtain ls1 ti1 el1 where pm: "pay_minimums (st_loans s) (st_total_interest s) extra = (ls1, ti1, el1)"
    by (cases "pay_minimums (st_loans s) (st_total_interest s) extra") auto
  have "length ls1 = length (st_loans s)"
    using pay_minimums_length [of "st_loans s" "st_total_interest s" extra] pm by simp
  with assms have "ls1 \<noteq> []" by auto
  then have "\<exists>ls'. apply_extra ls1 (max 0 el1) = Inr ls'"
    by (rule apply_extra_ok)
  then obtain ls' where ls': "apply_extra ls1 (max 0 el1) = Inr ls'" ..
  show ?thesis
    unfolding month_step_def Let_def pm prod.case
    by (cases "0 < max 0 el1") (simp_all only: ls' if_True if_False sum.case, blast+)
qed

lemma month_step_months: "month_step extra s = Inr s' \<Longrightarrow> st_months s' = Suc (st_months s)"
  by (auto simp: month_step_def Let_def split: prod.splits sum.splits if_splits)

lemma month_step_length:
  "month_step extra s = Inr s' \<Longrightarrow> length (st_loans s') = length (st_loans s)"
  using pay_minimums_length [of "st_loans s" "st_total_interest s" extra]
  by (auto simp: month_step_def Let_def split: prod.splits sum.splits if_splits
           dest: apply_extra_length)

lemma sim_guard_nonempty: "sim_guard s \<Longrightarrow> st_loans s \<noteq> []"
  by (auto simp: sim_guard_def)

lemma simulate_loop_ok:
  "st_months s \<le> 600 \<Longrightarrow> \<exists>s'. simulate_loop extra s = Inr s' \<and> st_months s' \<le> 600"
proof (induction extra s rule: simulate_loop.induct)
  case (1 extra s)
  show ?case
  proof (cases "sim_guard s")
    case True
    then obtain s1 where s1: "month_step extra s = Inr s1"
      using month_step_ok sim_guard_nonempty by blast
    from True have "st_months s < 600" by (simp add: sim_guard_def)
    with month_step_months [OF s1] have "st_months s1 \<le> 600" by simp
    from "1.IH" [OF True s1 this] True s1 show ?thesis
      by (subst simulate_loop.simps) simp
  next
    case False
    with "1.prems" show ?thesis
      by (subst simulate_loop.simps) simp
  qed
qed

lemma simulate_loop_iter:
  "600 - st_months s \<le> k \<Longrightarrow> simulate_loop extra s = simulate_iter k extra s"
proof (induction k arbitrary: s)
  case 0
  then have "\<not> sim_guard s" by (simp add: sim_guard_def)
  then show ?case by (subst simulate_loop.simps) simp
next
  case (Suc k)
  show ?case
  proof (cases "sim_guard s")
    case True
    show ?thesis
    proof (cases "month_step extra s")
      case (Inl e)
      with True show ?thesis by (subst simulate_loop.simps) simp
    next
      case (Inr s1)
      from month_step_months [OF Inr] Suc.prems have "600 - st_months s1 \<le> k" by simp
      from Suc.IH [OF this] True Inr show ?thesis by (subst simulate_loop.simps) simp
    qed
  next
    case False
    then show ?thesis by (subst simulate_loop.simps) simp
  qed
qed

lemma payoff_loop_iter:
  "600 - cp_months s \<le> k \<Longrightarrow> payoff_loop rt mp s = payoff_iter k rt mp s"
proof (induction k arbitrary: s)
  case 0
  then have "\<not> payoff_guard s" by (simp add: payoff_guard_def)
  then show ?case by (subst payoff_loop.simps) simp
next
  case (Suc k)
  show ?case
  proof (cases "payoff_guard s")
    case True
    have "cp_months (payoff_body rt mp s) = Suc (cp_months s)"
      by (simp add: payoff_body_def Let_def)
    with Suc.prems have "600 - cp_months (payoff_body rt mp s) \<le> k" by simp
    from Suc.IH [OF this] True show ?thesis by (subst payoff_loop.simps) simp
  next
    case False
    then show ?thesis by (subst payoff_loop.simps) simp
  qed
qed

section \<open>Termination and the cap of 600 months\<close>

text \<open>
  C1. For every balance, rate and monthly payment \<open>calculate_payoff\<close> returns, and for
  every loan list and every extra \<open>simulate\<close> returns a pair (it raises no error); the
  months value of either result is at most 600. Both loops are total functions here:
  their termination is proved with the measure \<open>600 - months\<close>.
\<close>

theorem C1_months_capped:
  "fst (calculate_payoff bal rt monthly_payment) \<le> 600 \<and>
   (\<exists>m ti. simulate lns extra = Inr (m, ti) \<and> m \<le> 600)"
proof
  show "fst (calculate_payoff bal rt monthly_payment) \<le> 600"
    using payoff_loop_months
      [of "\<lparr>cp_balance = bal, cp_months = 0, cp_total_interest = 0\<rparr>" rt monthly_payment]
    by (simp add: calculate_payoff_def Let_def)
next
  obtain s' where "simulate_loop extra \<lparr>st_loans = lns, st_months = 0, st_total_interest = 0\<rparr> = Inr s'"
    and "st_months s' \<le> 600"
    using simulate_loop_ok
      [of "\<lparr>st_loans = lns, st_months = 0, st_total_interest = 0\<rparr>" extra]
    by auto
  then show "\<exists>m ti. simulate lns extra = Inr (m, ti) \<and> m \<le> 600"
    by (simp add: simulate_def)
qed

section \<open>The empty loan list\<close>

text \<open>
  C4. On the empty loan list \<open>simulate\<close> returns \<open>(0, 0)\<close> for every extra, without
  entering its loop, and so do \<open>snowball\<close> and \<open>avalanche\<close>; none raises an error.
\<close>

theorem C4_empty_loan_list:
  "simulate [] extra = Inr (0, 0) \<and> snowball [] extra = Inr (0, 0) \<and>
   avalanche [] extra = Inr (0, 0)"
  by (simp add: simulate_def snowball_def avalanche_def snowball_order_def
        avalanche_order_def py_sorted_def sim_guard_def simulate_loop.simps)


section \<open>What a month does to the loans\<close>

lemma pay_minimums_nonneg:
  "list_all (\<lambda>l. 0 \<le> balance l) ls \<Longrightarrow>
   list_all (\<lambda>l. 0 \<le> balance l) (fst (pay_minimums ls ti el))"
  by (induction ls arbitrary: ti el) (simp_all add: Let_def case_prod_beta)

lemma apply_extra_nonneg:
  assumes "apply_extra ls el = Inr ls'" and "list_all (\<lambda>l. 0 \<le> balance l) ls"
  shows "list_all (\<lambda>l. 0 \<le> balance l) ls'"
proof (cases "select_target ls")
  case (Inl e)
  with assms show ?thesis by (simp add: apply_extra_def)
next
  case (Inr t)
  show ?thesis
  proof (cases t)
    case None
    with Inr assms show ?thesis by (simp add: apply_extra_def)
  next
    case (Some i)
    with Inr assms(1)
    have ls': "ls' = ls[i := (ls ! i)\<lparr>balance := balance (ls ! i) - min el (balance (ls ! i))\<rparr>]"
      by (simp add: apply_extra_def Let_def)
    from Inr Some have "i < length ls"
      using select_target_Some by blast
    then show ?thesis
      unfolding ls' using assms(2)
      by (auto simp: list_all_length nth_list_update)
  qed
qed

lemma month_step_cases:
  assumes "month_step extra s = Inr s'"
  obtains ls1 ti1 el1 where
    "pay_minimums (st_loans s) (st_total_interest s) extra = (ls1, ti1, el1)"
    "st_months s' = Suc (st_months s)" "st_total_interest s' = ti1"
    "(el1 \<le> 0 \<and> st_loans s' = ls1) \<or>
     (0 < el1 \<and> apply_extra ls1 el1 = Inr (st_loans s'))"
proof -
  obtain ls1 ti1 el1 where pm: "pay_minimums (st_loans s) (st_total_interest s) extra = (ls1, ti1, el1)"
    by (cases "pay_minimums (st_loans s) (st_total_interest s) extra") auto
  show thesis
  proof (cases "0 < el1")
    case True
    with assms pm show thesis
      by (intro that [of ls1 ti1 el1])
         (auto simp add: month_step_def Let_def split: sum.splits)
  next
    case False
    with assms pm show thesis
      by (intro that [of ls1 ti1 el1])
         (auto simp add: month_step_def Let_def split: sum.splits)
  qed
qed

lemma month_step_nonneg:
  assumes "month_step extra s = Inr s'" and "list_all (\<lambda>l. 0 \<le> balance l) (st_loans s)"
  shows "list_all (\<lambda>l. 0 \<le> balance l) (st_loans s')"
proof -
  from assms(1) obtain ls1 ti1 el1 where
    pm: "pay_minimums (st_loans s) (st_total_interest s) extra = (ls1, ti1, el1)" and
    ex: "(el1 \<le> 0 \<and> st_loans s' = ls1) \<or>
         (0 < el1 \<and> apply_extra ls1 el1 = Inr (st_loans s'))"
    by (rule month_step_cases)
  from pay_minimums_nonneg [OF assms(2), of "st_total_interest s" extra] pm
  have "list_all (\<lambda>l. 0 \<le> balance l) ls1" by simp
  with ex show ?thesis
    using apply_extra_nonneg by blast
qed

lemma simulate_iter_ok: "\<exists>s'. simulate_iter k extra s = Inr s'"
proof (induction k arbitrary: s)
  case 0
  show ?case by simp
next
  case (Suc k)
  show ?case
  proof (cases "sim_guard s")
    case True
    then obtain s1 where "month_step extra s = Inr s1"
      using month_step_ok sim_guard_nonempty by blast
    with True Suc.IH [of s1] show ?thesis by simp
  next
    case False
    then show ?thesis by simp
  qed
qed

lemma simulate_iter_Suc:
  "simulate_iter (Suc k) extra s =
     (case simulate_iter k extra s of
        Inl e \<Rightarrow> Inl e
      | Inr s' \<Rightarrow> if sim_guard s' then month_step extra s' else Inr s')"
proof (induction k arbitrary: s)
  case 0
  show ?case by (simp split: sum.splits)
next
  case (Suc k)
  show ?case
  proof (cases "sim_guard s")
    case True
    show ?thesis
    proof (cases "month_step extra s")
      case (Inl e)
      with True show ?thesis by simp
    next
      case (Inr s1)
      with True Suc.IH [of s1] show ?thesis by simp
    qed
  next
    case False
    then show ?thesis by simp
  qed
qed

lemma simulate_iter_nonneg:
  "list_all (\<lambda>l. 0 \<le> balance l) (st_loans s) \<Longrightarrow> simulate_iter k extra s = Inr s' \<Longrightarrow>
   list_all (\<lambda>l. 0 \<le> balance l) (st_loans s')"
proof (induction k arbitrary: s)
  case 0
  then show ?case by simp
next
  case (Suc k)
  show ?case
  proof (cases "sim_guard s")
    case True
    then obtain s1 where s1: "month_step extra s = Inr s1"
      using month_step_ok sim_guard_nonempty by blast
    from month_step_nonneg [OF s1 Suc.prems(1)] have "list_all (\<lambda>l. 0 \<le> balance l) (st_loans s1)" .
    moreover from Suc.prems(2) True s1 have "simulate_iter k extra s1 = Inr s'" by simp
    ultimately show ?thesis by (rule Suc.IH)
  next
    case False
    with Suc.prems show ?thesis by simp
  qed
qed

lemma payoff_body_nonneg: "0 \<le> cp_balance (payoff_body rt mp s)"
  by (simp add: payoff_body_def Let_def)

lemma payoff_iter_nonneg:
  "0 \<le> cp_balance s \<Longrightarrow> 0 \<le> cp_balance (payoff_iter k rt mp s)"
  by (induction k arbitrary: s) (simp_all add: payoff_body_nonneg)


lemma payoff_iter_Suc:
  "payoff_iter (Suc k) rt mp s =
     (let s' = payoff_iter k rt mp s in if payoff_guard s' then payoff_body rt mp s' else s')"
proof (induction k arbitrary: s)
  case 0
  show ?case by (simp add: Let_def)
next
  case (Suc k)
  show ?case
  proof (cases "payoff_guard s")
    case True
    have a: "payoff_iter (Suc (Suc k)) rt mp s = payoff_iter (Suc k) rt mp (payoff_body rt mp s)"
      using True by (subst payoff_iter.simps(2)) (simp only: if_True)
    have b: "payoff_iter (Suc k) rt mp s = payoff_iter k rt mp (payoff_body rt mp s)"
      using True by (subst payoff_iter.simps(2)) (simp only: if_True)
    show ?thesis
      by (simp only: a Suc.IH [of "payoff_body rt mp s"] b)
  next
    case False
    then show ?thesis by (simp add: Let_def)
  qed
qed

lemma payoff_body_interest:
  "payoff_guard s \<Longrightarrow> 0 \<le> rt \<Longrightarrow>
   cp_total_interest s \<le> cp_total_interest (payoff_body rt mp s)"
  by (simp add: payoff_guard_def payoff_body_def Let_def)

lemma payoff_iter_interest:
  "0 \<le> rt \<Longrightarrow> cp_total_interest s \<le> cp_total_interest (payoff_iter k rt mp s)"
proof (induction k arbitrary: s)
  case 0
  show ?case by simp
next
  case (Suc k)
  show ?case
  proof (cases "payoff_guard s")
    case True
    from payoff_body_interest [OF True Suc.prems]
    have "cp_total_interest s \<le> cp_total_interest (payoff_body rt mp s)" .
    also from Suc.IH [OF Suc.prems]
    have "\<dots> \<le> cp_total_interest (payoff_iter k rt mp (payoff_body rt mp s))" .
    finally show ?thesis using True by simp
  next
    case False
    then show ?thesis by simp
  qed
qed

text \<open>What one pass over the loans adds up: interest and payments of the loans with a positive balance.\<close>

lemma pay_minimums_interest:
  "fst (snd (pay_minimums ls ti el)) =
     ti + (\<Sum>l\<leftarrow>filter (\<lambda>l. 0 < balance l) ls. balance l * (rate l / 100 / 12))"
  by (induction ls arbitrary: ti el) (simp_all add: Let_def case_prod_beta not_le)

lemma pay_minimums_pool:
  "snd (snd (pay_minimums ls ti el)) =
     el - (\<Sum>l\<leftarrow>filter (\<lambda>l. 0 < balance l) ls.
             min (min_payment l) (balance l + balance l * (rate l / 100 / 12)))"
  by (induction ls arbitrary: ti el) (simp_all add: Let_def case_prod_beta not_le)

lemma pay_minimums_loans_indep:
  "fst (pay_minimums ls ti el) = fst (pay_minimums ls ti' el')"
  by (induction ls arbitrary: ti el ti' el') (simp_all add: Let_def case_prod_beta)

lemma pay_minimums_rate: "map rate (fst (pay_minimums ls ti el)) = map rate ls"
  by (induction ls arbitrary: ti el) (simp_all add: Let_def case_prod_beta)

lemma pay_minimums_min_payment:
  "map min_payment (fst (pay_minimums ls ti el)) = map min_payment ls"
  by (induction ls arbitrary: ti el) (simp_all add: Let_def case_prod_beta)

lemma pay_minimums_name: "map name (fst (pay_minimums ls ti el)) = map name ls"
  by (induction ls arbitrary: ti el) (simp_all add: Let_def case_prod_beta)

lemma apply_extra_cases:
  assumes "apply_extra ls el = Inr ls'"
  obtains "ls' = ls"
  | i where "i < length ls" "0 < balance (ls ! i)"
      "ls' = ls[i := (ls ! i)\<lparr>balance := balance (ls ! i) - min el (balance (ls ! i))\<rparr>]"
proof (cases "select_target ls")
  case (Inl e)
  with assms show ?thesis by (simp add: apply_extra_def)
next
  case (Inr t)
  show ?thesis
  proof (cases t)
    case None
    with Inr assms that(1) show ?thesis by (simp add: apply_extra_def)
  next
    case (Some i)
    with Inr assms
    have "ls' = ls[i := (ls ! i)\<lparr>balance := balance (ls ! i) - min el (balance (ls ! i))\<rparr>]"
      by (simp add: apply_extra_def Let_def)
    moreover from Inr Some have "i < length ls \<and> 0 < balance (ls ! i)"
      using select_target_Some by blast
    ultimately show ?thesis using that(2) by blast
  qed
qed

lemma apply_extra_rate: "apply_extra ls el = Inr ls' \<Longrightarrow> map rate ls' = map rate ls"
  by (erule apply_extra_cases) (simp_all add: map_update list_update_same_conv)

lemma apply_extra_min_payment:
  "apply_extra ls el = Inr ls' \<Longrightarrow> map min_payment ls' = map min_payment ls"
  by (erule apply_extra_cases) (simp_all add: map_update list_update_same_conv)

lemma apply_extra_name: "apply_extra ls el = Inr ls' \<Longrightarrow> map name ls' = map name ls"
  by (erule apply_extra_cases) (simp_all add: map_update list_update_same_conv)

lemma month_step_rate:
  assumes "month_step extra s = Inr s'"
  shows "map rate (st_loans s') = map rate (st_loans s)"
proof -
  from assms obtain ls1 ti1 el1 where
    pm: "pay_minimums (st_loans s) (st_total_interest s) extra = (ls1, ti1, el1)" and
    ex: "(el1 \<le> 0 \<and> st_loans s' = ls1) \<or> (0 < el1 \<and> apply_extra ls1 el1 = Inr (st_loans s'))"
    by (rule month_step_cases)
  from pay_minimums_rate [of "st_loans s" "st_total_interest s" extra] pm
  have "map rate ls1 = map rate (st_loans s)" by simp
  with ex show ?thesis
    using apply_extra_rate by fastforce
qed

lemma month_step_min_payment:
  assumes "month_step extra s = Inr s'"
  shows "map min_payment (st_loans s') = map min_payment (st_loans s)"
proof -
  from assms obtain ls1 ti1 el1 where
    pm: "pay_minimums (st_loans s) (st_total_interest s) extra = (ls1, ti1, el1)" and
    ex: "(el1 \<le> 0 \<and> st_loans s' = ls1) \<or> (0 < el1 \<and> apply_extra ls1 el1 = Inr (st_loans s'))"
    by (rule month_step_cases)
  from pay_minimums_min_payment [of "st_loans s" "st_total_interest s" extra] pm
  have "map min_payment ls1 = map min_payment (st_loans s)" by simp
  with ex show ?thesis
    using apply_extra_min_payment by fastforce
qed

lemma list_all_rate_cong:
  "map rate ls' = map rate ls \<Longrightarrow>
   list_all (\<lambda>l. P (rate l)) ls' = list_all (\<lambda>l. P (rate l)) ls"
  using list.pred_map [of P rate ls'] list.pred_map [of P rate ls]
  by (simp add: comp_def)

lemma list_all_min_payment_cong:
  "map min_payment ls' = map min_payment ls \<Longrightarrow>
   list_all (\<lambda>l. P (min_payment l)) ls' = list_all (\<lambda>l. P (min_payment l)) ls"
  using list.pred_map [of P min_payment ls'] list.pred_map [of P min_payment ls]
  by (simp add: comp_def)

lemma month_step_interest:
  assumes "month_step extra s = Inr s'"
  shows "st_total_interest s' = st_total_interest s +
     (\<Sum>l\<leftarrow>filter (\<lambda>l. 0 < balance l) (st_loans s). balance l * (rate l / 100 / 12))"
proof -
  from assms obtain ls1 ti1 el1 where
    pm: "pay_minimums (st_loans s) (st_total_interest s) extra = (ls1, ti1, el1)" and
    ti: "st_total_interest s' = ti1"
    by (rule month_step_cases)
  from pay_minimums_interest [of "st_loans s" "st_total_interest s" extra] pm ti
  show ?thesis by simp
qed

lemma interest_sum_nonneg:
  assumes "list_all (\<lambda>l. 0 \<le> rate l) ls"
  shows "0 \<le> (\<Sum>l\<leftarrow>filter (\<lambda>l. 0 < balance l) ls. balance l * (rate l / 100 / 12))"
proof (rule sum_list_nonneg)
  fix x
  assume "x \<in> set (map (\<lambda>l. balance l * (rate l / 100 / 12)) (filter (\<lambda>l. 0 < balance l) ls))"
  then obtain l where l: "l \<in> set ls" "0 < balance l" and x: "x = balance l * (rate l / 100 / 12)"
    by auto
  from assms l(1) have "0 \<le> rate l" by (simp add: list_all_iff)
  with l(2) show "0 \<le> x" unfolding x by simp
qed

lemma month_step_interest_mono:
  "month_step extra s = Inr s' \<Longrightarrow> list_all (\<lambda>l. 0 \<le> rate l) (st_loans s) \<Longrightarrow>
   st_total_interest s \<le> st_total_interest s'"
  using month_step_interest [of extra s s'] interest_sum_nonneg [of "st_loans s"]
  by simp

lemma simulate_iter_rate:
  "simulate_iter k extra s = Inr s' \<Longrightarrow> map rate (st_loans s') = map rate (st_loans s)"
proof (induction k arbitrary: s)
  case 0
  then show ?case by simp
next
  case (Suc k)
  show ?case
  proof (cases "sim_guard s")
    case True
    then obtain s1 where s1: "month_step extra s = Inr s1"
      using month_step_ok sim_guard_nonempty by blast
    with Suc.prems True have "simulate_iter k extra s1 = Inr s'" by simp
    from Suc.IH [OF this] month_step_rate [OF s1] show ?thesis by simp
  next
    case False
    with Suc.prems show ?thesis by simp
  qed
qed

lemma simulate_iter_interest:
  "simulate_iter k extra s = Inr s' \<Longrightarrow> list_all (\<lambda>l. 0 \<le> rate l) (st_loans s) \<Longrightarrow>
   st_total_interest s \<le> st_total_interest s'"
proof (induction k arbitrary: s)
  case 0
  then show ?case by simp
next
  case (Suc k)
  show ?case
  proof (cases "sim_guard s")
    case True
    then obtain s1 where s1: "month_step extra s = Inr s1"
      using month_step_ok sim_guard_nonempty by blast
    with Suc.prems True have it: "simulate_iter k extra s1 = Inr s'" by simp
    from month_step_rate [OF s1] Suc.prems(2)
    have "list_all (\<lambda>l. 0 \<le> rate l) (st_loans s1)"
      by (simp add: list_all_rate_cong [of "st_loans s1" "st_loans s"])
    from Suc.IH [OF it this] month_step_interest_mono [OF s1 Suc.prems(2)]
    show ?thesis by simp
  next
    case False
    with Suc.prems show ?thesis by simp
  qed
qed


section \<open>A monthly payment of zero\<close>

lemma payoff_zero_payment:
  "0 < b \<Longrightarrow> 0 < rt \<Longrightarrow> m + n = 600 \<Longrightarrow>
   payoff_loop rt 0 \<lparr>cp_balance = b, cp_months = m, cp_total_interest = ti\<rparr> =
     \<lparr>cp_balance = b * (1 + rt / 1200) ^ n, cp_months = 600,
      cp_total_interest = ti + b * ((1 + rt / 1200) ^ n - 1)\<rparr>"
proof (induction n arbitrary: b m ti)
  case 0
  then have "\<not> payoff_guard \<lparr>cp_balance = b, cp_months = m, cp_total_interest = ti\<rparr>"
    by (simp add: payoff_guard_def)
  with 0 show ?case by (subst payoff_loop.simps) simp
next
  case (Suc n)
  let ?s = "\<lparr>cp_balance = b, cp_months = m, cp_total_interest = ti\<rparr>"
  from Suc.prems have g: "payoff_guard ?s" by (simp add: payoff_guard_def)
  have pos: "0 < b * (1 + rt / 1200)"
    using Suc.prems by (simp add: add_pos_pos)
  then have body: "payoff_body rt 0 ?s =
      \<lparr>cp_balance = b * (1 + rt / 1200), cp_months = Suc m,
       cp_total_interest = ti + b * (rt / 1200)\<rparr>"
    by (simp add: payoff_body_def Let_def algebra_simps)
  from Suc.prems have "Suc m + n = 600" by simp
  from Suc.IH [OF pos Suc.prems(2) this]
  have "payoff_loop rt 0 (payoff_body rt 0 ?s) =
      \<lparr>cp_balance = b * (1 + rt / 1200) * (1 + rt / 1200) ^ n, cp_months = 600,
       cp_total_interest = ti + b * (rt / 1200) + b * (1 + rt / 1200) * ((1 + rt / 1200) ^ n - 1)\<rparr>"
    by (simp only: body)
  with g show ?case
    by (subst payoff_loop.simps) (simp add: algebra_simps)
qed

text \<open>
  C5, counterexample. The claim reads: for every balance and every rate above zero,
  \<open>calculate_payoff(balance, rate, 0)\<close> returns 600 months. With a balance of zero the
  loop is never entered: the result is \<open>(0, 0)\<close>.
\<close>

theorem C5_zero_balance_counterexample:
  "calculate_payoff 0 5 0 = (0, 0) \<and> fst (calculate_payoff 0 5 0) \<noteq> 600"
  by (simp add: calculate_payoff_def Let_def payoff_loop.simps payoff_guard_def)

text \<open>
  C5, as amended. For every balance above zero and every rate above zero,
  \<open>calculate_payoff(balance, rate, 0)\<close> returns 600 months, and the total interest is
  that of 600 months of monthly compounding on the balance:
  \<open>balance * ((1 + rate/100/12) ^ 600 - 1)\<close>.
\<close>

theorem C5_zero_payment_runs_to_cap:
  "0 < bal \<Longrightarrow> 0 < rt \<Longrightarrow>
   calculate_payoff bal rt 0 = (600, bal * ((1 + rt / 100 / 12) ^ 600 - 1))"
  using payoff_zero_payment [of bal rt 0 600 0]
  by (simp add: calculate_payoff_def Let_def)

text \<open>
  C5, witness: a balance of 100 at 12 percent.
\<close>

theorem C5_zero_payment_witness:
  "(0::rat) < 100 \<and> (0::rat) < 12 \<and>
   calculate_payoff 100 12 0 = (600, 100 * ((1 + 12 / 100 / 12) ^ 600 - 1))"
proof -
  have b: "(0::rat) < 100" and r: "(0::rat) < 12" by simp_all
  from C5_zero_payment_runs_to_cap [OF b r] b r show ?thesis by blast
qed

section \<open>Balances are never negative\<close>

text \<open>
  C6. When the balances of the input are not negative, no balance is negative after any
  iteration: in \<open>calculate_payoff\<close> after each of the first \<open>k\<close> iterations and when the
  loop has ended; in \<open>simulate\<close> after the minimum payments of a month, after each of the
  first \<open>k\<close> months (which end with the extra payment) and when the loop has ended.
\<close>

theorem C6_balances_never_negative:
  assumes "0 \<le> bal" and "list_all (\<lambda>l. 0 \<le> balance l) lns"
  shows "0 \<le> cp_balance (payoff_iter k rt monthly_payment
            \<lparr>cp_balance = bal, cp_months = 0, cp_total_interest = 0\<rparr>) \<and>
         0 \<le> cp_balance (payoff_loop rt monthly_payment
            \<lparr>cp_balance = bal, cp_months = 0, cp_total_interest = 0\<rparr>) \<and>
         list_all (\<lambda>l. 0 \<le> balance l) (fst (pay_minimums lns ti el)) \<and>
         (\<exists>s. simulate_iter k extra
                 \<lparr>st_loans = lns, st_months = 0, st_total_interest = 0\<rparr> = Inr s \<and>
              list_all (\<lambda>l. 0 \<le> balance l) (st_loans s)) \<and>
         (\<exists>s. simulate_loop extra
                 \<lparr>st_loans = lns, st_months = 0, st_total_interest = 0\<rparr> = Inr s \<and>
              list_all (\<lambda>l. 0 \<le> balance l) (st_loans s))"
proof (intro conjI)
  let ?p = "\<lparr>cp_balance = bal, cp_months = 0, cp_total_interest = 0\<rparr>"
  let ?s = "\<lparr>st_loans = lns, st_months = 0, st_total_interest = 0\<rparr>"
  from assms(1) have p: "0 \<le> cp_balance ?p" by simp
  from assms(2) have s: "list_all (\<lambda>l. 0 \<le> balance l) (st_loans ?s)" by simp
  show "0 \<le> cp_balance (payoff_iter k rt monthly_payment ?p)"
    using p by (rule payoff_iter_nonneg)
  have "payoff_loop rt monthly_payment ?p = payoff_iter 600 rt monthly_payment ?p"
    by (rule payoff_loop_iter) simp
  then show "0 \<le> cp_balance (payoff_loop rt monthly_payment ?p)"
    using payoff_iter_nonneg [OF p, of 600 rt monthly_payment] by simp
  show "list_all (\<lambda>l. 0 \<le> balance l) (fst (pay_minimums lns ti el))"
    using assms(2) by (rule pay_minimums_nonneg)
  obtain s1 where s1: "simulate_iter k extra ?s = Inr s1"
    using simulate_iter_ok by blast
  with simulate_iter_nonneg [OF s s1]
  show "\<exists>s'. simulate_iter k extra ?s = Inr s' \<and> list_all (\<lambda>l. 0 \<le> balance l) (st_loans s')"
    by blast
  obtain s2 where s2: "simulate_iter 600 extra ?s = Inr s2"
    using simulate_iter_ok by blast
  have "simulate_loop extra ?s = simulate_iter 600 extra ?s"
    by (rule simulate_loop_iter) simp
  with s2 simulate_iter_nonneg [OF s s2]
  show "\<exists>s'. simulate_loop extra ?s = Inr s' \<and> list_all (\<lambda>l. 0 \<le> balance l) (st_loans s')"
    by simp
qed

text \<open>
  C6, witness: a balance of 100 at 12 percent with a payment of 50, and the two-loan
  input with an extra of 20.
\<close>

theorem C6_witness:
  "0 \<le> cp_balance (payoff_iter 2 12 50
            \<lparr>cp_balance = 100, cp_months = 0, cp_total_interest = 0\<rparr>) \<and>
         0 \<le> cp_balance (payoff_loop 12 50
            \<lparr>cp_balance = 100, cp_months = 0, cp_total_interest = 0\<rparr>) \<and>
         list_all (\<lambda>l. 0 \<le> balance l) (fst (pay_minimums two_loans 0 20)) \<and>
         (\<exists>s. simulate_iter 2 20
                 \<lparr>st_loans = two_loans, st_months = 0, st_total_interest = 0\<rparr> = Inr s \<and>
              list_all (\<lambda>l. 0 \<le> balance l) (st_loans s)) \<and>
         (\<exists>s. simulate_loop 20
                 \<lparr>st_loans = two_loans, st_months = 0, st_total_interest = 0\<rparr> = Inr s \<and>
              list_all (\<lambda>l. 0 \<le> balance l) (st_loans s))"
proof -
  have h1: "(0::rat) \<le> 100" by simp
  have h2: "list_all (\<lambda>l. 0 \<le> balance l) two_loans" by (simp add: two_loans_def)
  show ?thesis
    by (rule C6_balances_never_negative [OF h1 h2])
qed


section \<open>Interest accrues monotonically\<close>

text \<open>
  C7. When the rates are not negative, the running total interest does not decrease from
  one iteration to the next, in \<open>calculate_payoff\<close> and in \<open>simulate\<close>, and the total
  interest either function returns is not negative. (Interest only accrues on a balance
  above zero, so no assumption on the balances is needed.)
\<close>

theorem C7_interest_never_decreases:
  assumes "0 \<le> rt" and "list_all (\<lambda>l. 0 \<le> rate l) lns"
  shows "cp_total_interest (payoff_iter k rt monthly_payment
            \<lparr>cp_balance = bal, cp_months = 0, cp_total_interest = 0\<rparr>)
          \<le> cp_total_interest (payoff_iter (Suc k) rt monthly_payment
            \<lparr>cp_balance = bal, cp_months = 0, cp_total_interest = 0\<rparr>) \<and>
         0 \<le> snd (calculate_payoff bal rt monthly_payment) \<and>
         (\<exists>s s'. simulate_iter k extra
                    \<lparr>st_loans = lns, st_months = 0, st_total_interest = 0\<rparr> = Inr s \<and>
                 simulate_iter (Suc k) extra
                    \<lparr>st_loans = lns, st_months = 0, st_total_interest = 0\<rparr> = Inr s' \<and>
                 st_total_interest s \<le> st_total_interest s') \<and>
         (\<exists>m ti. simulate lns extra = Inr (m, ti) \<and> 0 \<le> ti)"
proof (intro conjI)
  let ?p = "\<lparr>cp_balance = bal, cp_months = 0, cp_total_interest = 0\<rparr>"
  let ?s = "\<lparr>st_loans = lns, st_months = 0, st_total_interest = 0\<rparr>"
  let ?pk = "payoff_iter k rt monthly_payment ?p"
  show "cp_total_interest ?pk \<le> cp_total_interest (payoff_iter (Suc k) rt monthly_payment ?p)"
    using payoff_body_interest [of ?pk rt monthly_payment] assms(1)
    by (simp only: payoff_iter_Suc Let_def split: if_splits) simp
  have "payoff_loop rt monthly_payment ?p = payoff_iter 600 rt monthly_payment ?p"
    by (rule payoff_loop_iter) simp
  then show "0 \<le> snd (calculate_payoff bal rt monthly_payment)"
    using payoff_iter_interest [OF assms(1), of ?p 600 monthly_payment]
    by (simp add: calculate_payoff_def Let_def)
  obtain s1 where s1: "simulate_iter k extra ?s = Inr s1"
    using simulate_iter_ok by blast
  obtain s2 where s2: "simulate_iter (Suc k) extra ?s = Inr s2"
    using simulate_iter_ok by blast
  from simulate_iter_rate [OF s1] assms(2)
  have r1: "list_all (\<lambda>l. 0 \<le> rate l) (st_loans s1)"
    by (simp add: list_all_rate_cong [of "st_loans s1" lns])
  have "st_total_interest s1 \<le> st_total_interest s2"
  proof (cases "sim_guard s1")
    case True
    with s1 s2 have "month_step extra s1 = Inr s2"
      by (simp only: simulate_iter_Suc sum.case if_True)
    then show ?thesis using r1 by (rule month_step_interest_mono)
  next
    case False
    with s1 s2 have "s2 = s1"
      by (simp only: simulate_iter_Suc sum.case if_False sum.inject)
    then show ?thesis by simp
  qed
  with s1 s2
  show "\<exists>s s'. simulate_iter k extra ?s = Inr s \<and> simulate_iter (Suc k) extra ?s = Inr s' \<and>
          st_total_interest s \<le> st_total_interest s'"
    by blast
  obtain s3 where s3: "simulate_iter 600 extra ?s = Inr s3"
    using simulate_iter_ok by blast
  have "simulate_loop extra ?s = simulate_iter 600 extra ?s"
    by (rule simulate_loop_iter) simp
  with s3 simulate_iter_interest [OF s3] assms(2)
  show "\<exists>m ti. simulate lns extra = Inr (m, ti) \<and> 0 \<le> ti"
    by (simp add: simulate_def)
qed

text \<open>
  C7, witness: the inputs of the witness of C6.
\<close>

theorem C7_witness:
  "cp_total_interest (payoff_iter 1 12 50
            \<lparr>cp_balance = 100, cp_months = 0, cp_total_interest = 0\<rparr>)
          \<le> cp_total_interest (payoff_iter (Suc 1) 12 50
            \<lparr>cp_balance = 100, cp_months = 0, cp_total_interest = 0\<rparr>) \<and>
         0 \<le> snd (calculate_payoff 100 12 50) \<and>
         (\<exists>s s'. simulate_iter 1 20
                    \<lparr>st_loans = two_loans, st_months = 0, st_total_interest = 0\<rparr> = Inr s \<and>
                 simulate_iter (Suc 1) 20
                    \<lparr>st_loans = two_loans, st_months = 0, st_total_interest = 0\<rparr> = Inr s' \<and>
                 st_total_interest s \<le> st_total_interest s') \<and>
         (\<exists>m ti. simulate two_loans 20 = Inr (m, ti) \<and> 0 \<le> ti)"
proof -
  have h1: "(0::rat) \<le> 12" by simp
  have h2: "list_all (\<lambda>l. 0 \<le> rate l) two_loans" by (simp add: two_loans_def)
  show ?thesis
    by (rule C7_interest_never_decreases [OF h1 h2])
qed

section \<open>The orderings of snowball and avalanche\<close>

text \<open>
  C9. \<open>snowball\<close> runs the simulation on the loans sorted ascending by balance,
  \<open>avalanche\<close> on the loans sorted descending by rate. Either list is a permutation of the
  input, and the sorts are stable: the loans that share a balance \<open>b\<close> (a rate \<open>r\<close>)
  appear in the sorted list in the order they have in the input.
\<close>

theorem C9_stable_sorts:
  "sorted (map balance (snowball_order lns)) \<and>
   mset (snowball_order lns) = mset lns \<and>
   filter (\<lambda>l. balance l = b) (snowball_order lns) = filter (\<lambda>l. balance l = b) lns \<and>
   sorted_wrt (\<ge>) (map rate (avalanche_order lns)) \<and>
   mset (avalanche_order lns) = mset lns \<and>
   filter (\<lambda>l. rate l = r) (avalanche_order lns) = filter (\<lambda>l. rate l = r) lns \<and>
   snowball lns extra = simulate (snowball_order lns) extra \<and>
   avalanche lns extra = simulate (avalanche_order lns) extra"
proof -
  have desc: "sorted_wrt (\<ge>) (map rate (rev (sort_key rate (rev lns))))"
    using sorted_sort_key [of rate "rev lns"]
    by (simp add: rev_map [symmetric] sorted_wrt_rev del: sorted_sort_key)
  have stab: "filter (\<lambda>l. rate l = r) (rev (sort_key rate (rev lns))) = filter (\<lambda>l. rate l = r) lns"
    by (simp add: rev_filter [symmetric] sort_key_stable)
  show ?thesis
    using desc stab
    by (simp add: snowball_order_def avalanche_order_def py_sorted_def sort_key_stable
          snowball_def avalanche_def)
qed


section \<open>Loans without a positive balance\<close>

lemma pay_minimums_skip:
  "i < length ls \<Longrightarrow> balance (ls ! i) \<le> 0 \<Longrightarrow> fst (pay_minimums ls ti el) ! i = ls ! i"
proof (induction ls arbitrary: i ti el)
  case Nil
  then show ?case by simp
next
  case (Cons l ls)
  show ?case
  proof (cases i)
    case 0
    with Cons.prems show ?thesis by (simp add: case_prod_beta)
  next
    case (Suc j)
    with Cons.prems have "j < length ls" "balance (ls ! j) \<le> 0" by simp_all
    from Cons.IH [OF this] Suc show ?thesis
      by (simp add: Let_def case_prod_beta)
  qed
qed

lemma apply_extra_skip:
  assumes "apply_extra ls el = Inr ls'" and "balance (ls ! i) \<le> 0"
  shows "ls' ! i = ls ! i"
  using assms(1)
proof (cases rule: apply_extra_cases)
  case 1
  then show ?thesis by simp
next
  case (2 j)
  with assms(2) have "j \<noteq> i" by auto
  with 2(3) show ?thesis by simp
qed

lemma month_step_skip:
  assumes "month_step extra s = Inr s'"
    and "i < length (st_loans s)" and "balance (st_loans s ! i) \<le> 0"
  shows "st_loans s' ! i = st_loans s ! i"
proof -
  from assms(1) obtain ls1 ti1 el1 where
    pm: "pay_minimums (st_loans s) (st_total_interest s) extra = (ls1, ti1, el1)" and
    ex: "(el1 \<le> 0 \<and> st_loans s' = ls1) \<or> (0 < el1 \<and> apply_extra ls1 el1 = Inr (st_loans s'))"
    by (rule month_step_cases)
  from pay_minimums_skip [OF assms(2,3), of "st_total_interest s" extra] pm
  have ls1: "ls1 ! i = st_loans s ! i" by simp
  from ex show ?thesis
  proof
    assume "el1 \<le> 0 \<and> st_loans s' = ls1"
    with ls1 show ?thesis by simp
  next
    assume "0 < el1 \<and> apply_extra ls1 el1 = Inr (st_loans s')"
    then have "apply_extra ls1 el1 = Inr (st_loans s')" ..
    moreover from ls1 assms(3) have "balance (ls1 ! i) \<le> 0" by simp
    ultimately have "st_loans s' ! i = ls1 ! i" by (rule apply_extra_skip)
    with ls1 show ?thesis by simp
  qed
qed

lemma simulate_iter_skip:
  "simulate_iter k extra s = Inr s' \<Longrightarrow> i < length (st_loans s) \<Longrightarrow>
   balance (st_loans s ! i) \<le> 0 \<Longrightarrow> st_loans s' ! i = st_loans s ! i"
proof (induction k arbitrary: s)
  case 0
  then show ?case by simp
next
  case (Suc k)
  show ?case
  proof (cases "sim_guard s")
    case True
    then obtain s1 where s1: "month_step extra s = Inr s1"
      using month_step_ok sim_guard_nonempty by blast
    with Suc.prems True have it: "simulate_iter k extra s1 = Inr s'" by simp
    have eq: "st_loans s1 ! i = st_loans s ! i"
      using s1 Suc.prems(2,3) by (rule month_step_skip)
    have len: "i < length (st_loans s1)"
      using month_step_length [OF s1] Suc.prems(2) by simp
    from eq Suc.prems(3) have "balance (st_loans s1 ! i) \<le> 0" by simp
    from Suc.IH [OF it len this] eq show ?thesis by simp
  next
    case False
    with Suc.prems show ?thesis by simp
  qed
qed

lemma select_target_positive:
  "balance (ls ! i) \<le> 0 \<Longrightarrow> select_target ls \<noteq> Inr (Some i)"
  using select_target_Some [of ls i] by auto

text \<open>
  C8. Let loan \<open>i\<close> have a balance that is not positive at the start of a month, in any
  state \<open>s\<close> of the simulation. Then the loan is the same after any number \<open>k\<close> of further
  months; the pass over the loans leaves it as it is; the interest added to
  \<open>total_interest\<close> and the payments taken from the pool in that pass are sums over the
  loans with a positive balance only; and the loan is not the target of the extra payment.
\<close>

theorem C8_paid_off_loans_are_skipped:
  assumes "i < length (st_loans s)" and "balance (st_loans s ! i) \<le> 0"
  shows "(\<exists>s'. simulate_iter k extra s = Inr s' \<and> st_loans s' ! i = st_loans s ! i) \<and>
         fst (pay_minimums (st_loans s) ti el) ! i = st_loans s ! i \<and>
         fst (snd (pay_minimums (st_loans s) ti el)) =
           ti + (\<Sum>l\<leftarrow>filter (\<lambda>l. 0 < balance l) (st_loans s). balance l * (rate l / 100 / 12)) \<and>
         snd (snd (pay_minimums (st_loans s) ti el)) =
           el - (\<Sum>l\<leftarrow>filter (\<lambda>l. 0 < balance l) (st_loans s).
                   min (min_payment l) (balance l + balance l * (rate l / 100 / 12))) \<and>
         select_target (fst (pay_minimums (st_loans s) ti el)) \<noteq> Inr (Some i)"
proof (intro conjI)
  obtain s1 where s1: "simulate_iter k extra s = Inr s1"
    using simulate_iter_ok by blast
  with simulate_iter_skip [OF s1 assms]
  show "\<exists>s'. simulate_iter k extra s = Inr s' \<and> st_loans s' ! i = st_loans s ! i"
    by blast
  show sk: "fst (pay_minimums (st_loans s) ti el) ! i = st_loans s ! i"
    using assms by (rule pay_minimums_skip)
  show "fst (snd (pay_minimums (st_loans s) ti el)) =
           ti + (\<Sum>l\<leftarrow>filter (\<lambda>l. 0 < balance l) (st_loans s). balance l * (rate l / 100 / 12))"
    by (rule pay_minimums_interest)
  show "snd (snd (pay_minimums (st_loans s) ti el)) =
           el - (\<Sum>l\<leftarrow>filter (\<lambda>l. 0 < balance l) (st_loans s).
                   min (min_payment l) (balance l + balance l * (rate l / 100 / 12)))"
    by (rule pay_minimums_pool)
  from sk assms(2) have "balance (fst (pay_minimums (st_loans s) ti el) ! i) \<le> 0" by simp
  then show "select_target (fst (pay_minimums (st_loans s) ti el)) \<noteq> Inr (Some i)"
    by (rule select_target_positive)
qed


text \<open>
  C8, witness: the paid-off first loan of \<open>mid_state\<close>.
\<close>

theorem C8_witness:
  "(\<exists>s'. simulate_iter 2 20 mid_state = Inr s' \<and> st_loans s' ! 0 = st_loans mid_state ! 0) \<and>
         fst (pay_minimums (st_loans mid_state) 7 20) ! 0 = st_loans mid_state ! 0 \<and>
         fst (snd (pay_minimums (st_loans mid_state) 7 20)) =
           7 + (\<Sum>l\<leftarrow>filter (\<lambda>l. 0 < balance l) (st_loans mid_state). balance l * (rate l / 100 / 12)) \<and>
         snd (snd (pay_minimums (st_loans mid_state) 7 20)) =
           20 - (\<Sum>l\<leftarrow>filter (\<lambda>l. 0 < balance l) (st_loans mid_state).
                   min (min_payment l) (balance l + balance l * (rate l / 100 / 12))) \<and>
         select_target (fst (pay_minimums (st_loans mid_state) 7 20)) \<noteq> Inr (Some 0)"
proof -
  have h1: "0 < length (st_loans mid_state)" by (simp add: mid_state_def)
  have h2: "balance (st_loans mid_state ! 0) \<le> 0" by (simp add: mid_state_def)
  show ?thesis
    by (rule C8_paid_off_loans_are_skipped [OF h1 h2])
qed


section \<open>An extra budget that is not positive\<close>

lemma pay_sum_nonneg:
  assumes "list_all (\<lambda>l. 0 \<le> min_payment l) ls" and "list_all (\<lambda>l. - 1200 \<le> rate l) ls"
  shows "0 \<le> (\<Sum>l\<leftarrow>filter (\<lambda>l. 0 < balance l) ls.
                  min (min_payment l) (balance l + balance l * (rate l / 100 / 12)))"
proof (rule sum_list_nonneg)
  fix x
  assume "x \<in> set (map (\<lambda>l. min (min_payment l) (balance l + balance l * (rate l / 100 / 12)))
                     (filter (\<lambda>l. 0 < balance l) ls))"
  then obtain l where l: "l \<in> set ls" "0 < balance l"
    and x: "x = min (min_payment l) (balance l + balance l * (rate l / 100 / 12))"
    by auto
  from assms l(1) have mp: "0 \<le> min_payment l" and r: "- 1200 \<le> rate l"
    by (simp_all add: list_all_iff)
  from r have "0 \<le> 1 + rate l / 1200" by simp
  with l(2) have "0 \<le> balance l * (1 + rate l / 1200)" by simp
  then have "0 \<le> balance l + balance l * (rate l / 100 / 12)"
    by (simp add: algebra_simps)
  with mp show "0 \<le> x" unfolding x by simp
qed

lemma pay_minimums_pool_le:
  "list_all (\<lambda>l. 0 \<le> min_payment l) ls \<Longrightarrow> list_all (\<lambda>l. - 1200 \<le> rate l) ls \<Longrightarrow>
   snd (snd (pay_minimums ls ti el)) \<le> el"
  using pay_sum_nonneg [of ls] by (simp add: pay_minimums_pool)

lemma month_step_no_extra:
  assumes "snd (snd (pay_minimums (st_loans s) (st_total_interest s) extra)) \<le> 0"
  shows "month_step extra s =
     Inr \<lparr>st_loans = fst (pay_minimums (st_loans s) (st_total_interest s) extra),
          st_months = st_months s + 1,
          st_total_interest = fst (snd (pay_minimums (st_loans s) (st_total_interest s) extra))\<rparr>"
proof -
  obtain ls1 ti1 el1 where pm: "pay_minimums (st_loans s) (st_total_interest s) extra = (ls1, ti1, el1)"
    by (cases "pay_minimums (st_loans s) (st_total_interest s) extra") auto
  with assms have "el1 \<le> 0" by simp
  with pm show ?thesis by (simp add: month_step_def Let_def)
qed

lemma month_step_nonpos_extra:
  assumes "extra \<le> 0"
    and "list_all (\<lambda>l. 0 \<le> min_payment l) (st_loans s)"
    and "list_all (\<lambda>l. - 1200 \<le> rate l) (st_loans s)"
  shows "month_step extra s = month_step 0 s"
proof -
  let ?ls = "st_loans s" and ?ti = "st_total_interest s"
  from pay_minimums_pool_le [OF assms(2,3), of ?ti extra] assms(1)
  have a: "snd (snd (pay_minimums ?ls ?ti extra)) \<le> 0" by simp
  from pay_minimums_pool_le [OF assms(2,3), of ?ti 0]
  have b: "snd (snd (pay_minimums ?ls ?ti 0)) \<le> 0" by simp
  have c: "fst (pay_minimums ?ls ?ti extra) = fst (pay_minimums ?ls ?ti 0)"
    by (rule pay_minimums_loans_indep)
  have d: "fst (snd (pay_minimums ?ls ?ti extra)) = fst (snd (pay_minimums ?ls ?ti 0))"
    by (simp only: pay_minimums_interest)
  show ?thesis
    by (simp only: month_step_no_extra [OF a] month_step_no_extra [OF b] c d)
qed

lemma simulate_iter_nonpos_extra:
  "extra \<le> 0 \<Longrightarrow> list_all (\<lambda>l. 0 \<le> min_payment l) (st_loans s) \<Longrightarrow>
   list_all (\<lambda>l. - 1200 \<le> rate l) (st_loans s) \<Longrightarrow>
   simulate_iter k extra s = simulate_iter k 0 s"
proof (induction k arbitrary: s)
  case 0
  show ?case by simp
next
  case (Suc k)
  show ?case
  proof (cases "sim_guard s")
    case True
    then obtain s1 where s1: "month_step 0 s = Inr s1"
      using month_step_ok sim_guard_nonempty by blast
    from month_step_nonpos_extra [OF Suc.prems] s1
    have s1': "month_step extra s = Inr s1" by simp
    from month_step_min_payment [OF s1] Suc.prems(2)
    have mp: "list_all (\<lambda>l. 0 \<le> min_payment l) (st_loans s1)"
      by (simp add: list_all_min_payment_cong [of "st_loans s1" "st_loans s"])
    from month_step_rate [OF s1] Suc.prems(3)
    have r: "list_all (\<lambda>l. - 1200 \<le> rate l) (st_loans s1)"
      by (simp add: list_all_rate_cong [of "st_loans s1" "st_loans s"])
    from Suc.IH [OF Suc.prems(1) mp r] True s1 s1' show ?thesis by simp
  next
    case False
    then show ?thesis by simp
  qed
qed

text \<open>
  C10, as amended. For every loan list whose minimum payments are not negative and whose
  rates are at least \<open>-1200\<close> percent (every non-negative rate is), and every extra that
  is not positive, \<open>simulate(loans, extra)\<close> returns what \<open>simulate(loans, 0)\<close> returns.
\<close>

theorem C10_nonpositive_extra_acts_as_zero:
  assumes "extra \<le> 0"
    and "list_all (\<lambda>l. 0 \<le> min_payment l) lns"
    and "list_all (\<lambda>l. - 1200 \<le> rate l) lns"
  shows "simulate lns extra = simulate lns 0"
proof -
  let ?s = "\<lparr>st_loans = lns, st_months = 0, st_total_interest = 0\<rparr>"
  have a: "simulate_loop extra ?s = simulate_iter 600 extra ?s"
    by (rule simulate_loop_iter) simp
  have b: "simulate_loop 0 ?s = simulate_iter 600 0 ?s"
    by (rule simulate_loop_iter) simp
  have "simulate_iter 600 extra ?s = simulate_iter 600 0 ?s"
    using assms by (intro simulate_iter_nonpos_extra) simp_all
  with a b show ?thesis by (simp add: simulate_def)
qed

text \<open>
  C10, witness: the two-loan input with an extra of \<open>-5\<close>.
\<close>

theorem C10_witness:
  "simulate two_loans (- 5) = simulate two_loans 0"
proof -
  have h1: "(- 5 :: rat) \<le> 0" by simp
  have h2: "list_all (\<lambda>l. 0 \<le> min_payment l) two_loans" by (simp add: two_loans_def)
  have h3: "list_all (\<lambda>l. - 1200 \<le> rate l) two_loans" by (simp add: two_loans_def)
  show ?thesis
    by (rule C10_nonpositive_extra_acts_as_zero [OF h1 h2 h3])
qed

lemma simulate_loop_steady:
  assumes step: "\<And>m. month_step extra \<lparr>st_loans = ls, st_months = m, st_total_interest = ti\<rparr> =
                     Inr \<lparr>st_loans = ls, st_months = Suc m, st_total_interest = ti\<rparr>"
    and pos: "list_ex (\<lambda>l. 0 < balance l) ls"
  shows "m + n = 600 \<Longrightarrow>
         simulate_loop extra \<lparr>st_loans = ls, st_months = m, st_total_interest = ti\<rparr> =
           Inr \<lparr>st_loans = ls, st_months = 600, st_total_interest = ti\<rparr>"
proof (induction n arbitrary: m)
  case 0
  then show ?case
    by (subst simulate_loop.simps) (simp add: sim_guard_def)
next
  case (Suc n)
  then have "Suc m + n = 600" by simp
  from Suc.IH [OF this] Suc.prems pos show ?case
    by (subst simulate_loop.simps) (simp add: sim_guard_def step)
qed


lemma neg_min_run_zero: "simulate neg_min_loans 0 = Inr (600, 1 / 10)"
proof -
  let ?s0 = "\<lparr>st_loans = neg_min_loans, st_months = 0, st_total_interest = 0\<rparr>"
  let ?ls1 = "[\<lparr>name = ''B'', balance = 0, rate = 12, min_payment = 10\<rparr>,
               \<lparr>name = ''A'', balance = 30, rate = 0, min_payment = - 20\<rparr>]"
  have g0: "sim_guard ?s0" by (simp add: sim_guard_def neg_min_loans_def)
  have m1: "month_step 0 ?s0 = Inr \<lparr>st_loans = ?ls1, st_months = 1, st_total_interest = 1 / 10\<rparr>"
    by (simp add: month_step_def neg_min_loans_def Let_def apply_extra_def select_target_def)
  have st: "\<And>m. month_step 0 \<lparr>st_loans = ?ls1, st_months = m, st_total_interest = 1 / 10\<rparr> =
                Inr \<lparr>st_loans = ?ls1, st_months = Suc m, st_total_interest = 1 / 10\<rparr>"
    by (simp add: month_step_def Let_def apply_extra_def select_target_def)
  have "simulate_loop 0 \<lparr>st_loans = ?ls1, st_months = 1, st_total_interest = 1 / 10\<rparr> =
          Inr \<lparr>st_loans = ?ls1, st_months = 600, st_total_interest = 1 / 10\<rparr>"
    by (rule simulate_loop_steady [where n = 599, OF st]) simp_all
  with g0 m1 have "simulate_loop 0 ?s0 =
      Inr \<lparr>st_loans = ?ls1, st_months = 600, st_total_interest = 1 / 10\<rparr>"
    by (subst simulate_loop.simps) simp
  then show ?thesis by (simp add: simulate_def)
qed

lemma neg_min_run_neg: "\<exists>m ti. simulate neg_min_loans (- 10) = Inr (m, ti) \<and> 101 / 1000 \<le> ti"
proof -
  let ?s0 = "\<lparr>st_loans = neg_min_loans, st_months = 0, st_total_interest = 0\<rparr>"
  let ?s1 = "\<lparr>st_loans = [\<lparr>name = ''B'', balance = 1 / 10, rate = 12, min_payment = 10\<rparr>,
               \<lparr>name = ''A'', balance = 30, rate = 0, min_payment = - 20\<rparr>],
              st_months = 1, st_total_interest = 1 / 10\<rparr>"
  let ?s2 = "\<lparr>st_loans = [\<lparr>name = ''B'', balance = 0, rate = 12, min_payment = 10\<rparr>,
               \<lparr>name = ''A'', balance = 40101 / 1000, rate = 0, min_payment = - 20\<rparr>],
              st_months = 2, st_total_interest = 101 / 1000\<rparr>"
  have g0: "sim_guard ?s0" by (simp add: sim_guard_def neg_min_loans_def)
  have m1: "month_step (- 10) ?s0 = Inr ?s1"
    by (simp add: month_step_def neg_min_loans_def Let_def apply_extra_def select_target_def)
  have g1: "sim_guard ?s1" by (simp add: sim_guard_def)
  have m2: "month_step (- 10) ?s1 = Inr ?s2"
    by (simp add: month_step_def Let_def apply_extra_def select_target_def)
  have "simulate_loop (- 10) ?s0 = simulate_loop (- 10) ?s1"
    using g0 m1 by (subst simulate_loop.simps) simp
  also have "\<dots> = simulate_loop (- 10) ?s2"
    using g1 m2 by (subst simulate_loop.simps) simp
  also have "\<dots> = simulate_iter 598 (- 10) ?s2"
    by (rule simulate_loop_iter) simp
  finally have eq: "simulate_loop (- 10) ?s0 = simulate_iter 598 (- 10) ?s2" .
  obtain s' where s': "simulate_iter 598 (- 10) ?s2 = Inr s'"
    using simulate_iter_ok by blast
  have "st_total_interest ?s2 \<le> st_total_interest s'"
    using s' by (rule simulate_iter_interest) simp
  with eq s' show ?thesis by (simp add: simulate_def)
qed

lemma neg_rate_run_zero: "simulate neg_rate_loans 0 = Inr (1, - 20)"
proof -
  let ?s0 = "\<lparr>st_loans = neg_rate_loans, st_months = 0, st_total_interest = 0\<rparr>"
  let ?s1 = "\<lparr>st_loans = [\<lparr>name = ''A'', balance = 0, rate = - 2400, min_payment = 0\<rparr>,
               \<lparr>name = ''B'', balance = 0, rate = 0, min_payment = 0\<rparr>],
              st_months = 1, st_total_interest = - 20\<rparr>"
  have g0: "sim_guard ?s0" by (simp add: sim_guard_def neg_rate_loans_def)
  have m1: "month_step 0 ?s0 = Inr ?s1"
    by (simp add: month_step_def neg_rate_loans_def Let_def apply_extra_def select_target_def)
  have g1: "\<not> sim_guard ?s1" by (simp add: sim_guard_def)
  have "simulate_loop 0 ?s0 = simulate_loop 0 ?s1"
    using g0 m1 by (subst simulate_loop.simps) simp
  also have "\<dots> = Inr ?s1"
    using g1 by (subst simulate_loop.simps) simp
  finally show ?thesis by (simp add: simulate_def)
qed

lemma neg_rate_run_neg: "simulate neg_rate_loans (- 5) = Inr (600, - 20)"
proof -
  let ?s0 = "\<lparr>st_loans = neg_rate_loans, st_months = 0, st_total_interest = 0\<rparr>"
  let ?ls1 = "[\<lparr>name = ''A'', balance = 0, rate = - 2400, min_payment = 0\<rparr>,
               \<lparr>name = ''B'', balance = 5, rate = 0, min_payment = 0\<rparr>]"
  have g0: "sim_guard ?s0" by (simp add: sim_guard_def neg_rate_loans_def)
  have m1: "month_step (- 5) ?s0 = Inr \<lparr>st_loans = ?ls1, st_months = 1, st_total_interest = - 20\<rparr>"
    by (simp add: month_step_def neg_rate_loans_def Let_def apply_extra_def select_target_def)
  have st: "\<And>m. month_step (- 5) \<lparr>st_loans = ?ls1, st_months = m, st_total_interest = - 20\<rparr> =
                Inr \<lparr>st_loans = ?ls1, st_months = Suc m, st_total_interest = - 20\<rparr>"
    by (simp add: month_step_def Let_def apply_extra_def select_target_def)
  have "simulate_loop (- 5) \<lparr>st_loans = ?ls1, st_months = 1, st_total_interest = - 20\<rparr> =
          Inr \<lparr>st_loans = ?ls1, st_months = 600, st_total_interest = - 20\<rparr>"
    by (rule simulate_loop_steady [where n = 599, OF st]) simp_all
  with g0 m1 have "simulate_loop (- 5) ?s0 =
      Inr \<lparr>st_loans = ?ls1, st_months = 600, st_total_interest = - 20\<rparr>"
    by (subst simulate_loop.simps) simp
  then show ?thesis by (simp add: simulate_def)
qed

text \<open>
  C10, counterexample. The claim reads: for every loan list and every extra that is not
  positive, \<open>simulate(loans, extra)\<close> returns what \<open>simulate(loans, 0)\<close> returns. A
  negative minimum payment is added to the pool, and so is the payment of a loan whose
  interest has made its balance negative; the pool can then be positive although the extra
  is not, and its size depends on the extra. On \<open>neg_min_loans\<close> the total interest
  differs between the extras \<open>-10\<close> and 0, on \<open>neg_rate_loans\<close> the months differ between
  the extras \<open>-5\<close> and 0.
\<close>

theorem C10_negative_input_counterexample:
  "simulate neg_min_loans (- 10) \<noteq> simulate neg_min_loans 0 \<and>
   simulate neg_rate_loans (- 5) \<noteq> simulate neg_rate_loans 0"
proof
  from neg_min_run_neg obtain m ti
    where "simulate neg_min_loans (- 10) = Inr (m, ti)" and "101 / 1000 \<le> ti"
    by blast
  then show "simulate neg_min_loans (- 10) \<noteq> simulate neg_min_loans 0"
    by (auto simp add: neg_min_run_zero)
  show "simulate neg_rate_loans (- 5) \<noteq> simulate neg_rate_loans 0"
    by (simp add: neg_rate_run_zero neg_rate_run_neg)
qed


section \<open>The run on the two-loan input\<close>

lemma two_loans_orders:
  "avalanche_order two_loans = run_loans 50 100"
  "snowball_order two_loans = run_loans 50 100"
  by (simp_all add: avalanche_order_def snowball_order_def py_sorted_def two_loans_def
        run_loans_def)

lemma simulate_loop_step:
  "sim_guard s \<Longrightarrow> month_step extra s = Inr s' \<Longrightarrow>
   simulate_loop extra s = simulate_loop extra s'"
  by (subst simulate_loop.simps) simp

lemma simulate_loop_done: "\<not> sim_guard s \<Longrightarrow> simulate_loop extra s = Inr s"
  by (subst simulate_loop.simps) simp

lemma run_guard: "sim_guard (run_state b a m ti) \<longleftrightarrow> (0 < b \<or> 0 < a) \<and> m < 600"
  by (simp add: sim_guard_def run_state_def run_loans_def)

lemma run_month_1:
  "month_step 20 (run_state (50) (100) 0 (0)) =
     Inr (run_state (245 / 6) (1085 / 12) 1 (5 / 4))"
  by (simp add: run_state_def run_loans_def month_step_def Let_def apply_extra_def select_target_def)

lemma run_month_2:
  "month_step 20 (run_state (245 / 6) (1085 / 12) 1 (5 / 4)) =
     Inr (run_state (2269 / 72) (46537 / 576) 2 (443 / 192))"
  by (simp add: run_state_def run_loans_def month_step_def Let_def apply_extra_def select_target_def)

lemma run_month_3:
  "month_step 20 (run_state (2269 / 72) (46537 / 576) 2 (443 / 192)) =
     Inr (run_state (95209 / 4320) (9833017 / 138240) 3 (29207 / 9216))"
  by (simp add: run_state_def run_loans_def month_step_def Let_def apply_extra_def select_target_def)

lemma run_month_4:
  "month_step 20 (run_state (95209 / 4320) (9833017 / 138240) 3 (29207 / 9216)) =
     Inr (run_state (3215749 / 259200) (2037981097 / 33177600) 4 (14129441 / 3686400))"
  by (simp add: run_state_def run_loans_def month_step_def Let_def apply_extra_def select_target_def)

lemma run_month_5:
  "month_step 20 (run_state (3215749 / 259200) (2037981097 / 33177600) 4 (14129441 / 3686400)) =
     Inr (run_state (40640689 / 15552000) (411527204377 / 7962624000) 5 (2280269143 / 530841600))"
  by (simp add: run_state_def run_loans_def month_step_def Let_def apply_extra_def select_target_def)






lemma simulate_iter_step:
  "sim_guard s \<Longrightarrow> month_step extra s = Inr s' \<Longrightarrow>
   simulate_iter (Suc k) extra s = simulate_iter k extra s'"
  by simp

lemma two_loans_five_months:
  "simulate_iter 5 20 (run_state 50 100 0 0) =
     Inr (run_state (40640689 / 15552000) (411527204377 / 7962624000) 5 (2280269143 / 530841600))"
proof -
  have five: "(5::nat) = Suc (Suc (Suc (Suc (Suc 0))))" by simp
  have "simulate_iter 5 20 (run_state (50) (100) 0 (0)) =
      simulate_iter (Suc (Suc (Suc (Suc (Suc 0))))) 20 (run_state (50) (100) 0 (0))"
    by (simp only: five)
  also have "\<dots> = simulate_iter (Suc (Suc (Suc (Suc 0)))) 20 (run_state (245 / 6) (1085 / 12) 1 (5 / 4))"
    by (rule simulate_iter_step [OF _ run_month_1]) (simp add: run_guard)
  also have "\<dots> = simulate_iter (Suc (Suc (Suc 0))) 20 (run_state (2269 / 72) (46537 / 576) 2 (443 / 192))"
    by (rule simulate_iter_step [OF _ run_month_2]) (simp add: run_guard)
  also have "\<dots> = simulate_iter (Suc (Suc 0)) 20 (run_state (95209 / 4320) (9833017 / 138240) 3 (29207 / 9216))"
    by (rule simulate_iter_step [OF _ run_month_3]) (simp add: run_guard)
  also have "\<dots> = simulate_iter (Suc 0) 20 (run_state (3215749 / 259200) (2037981097 / 33177600) 4 (14129441 / 3686400))"
    by (rule simulate_iter_step [OF _ run_month_4]) (simp add: run_guard)
  also have "\<dots> = simulate_iter 0 20 (run_state (40640689 / 15552000) (411527204377 / 7962624000) 5 (2280269143 / 530841600))"
    by (rule simulate_iter_step [OF _ run_month_5]) (simp add: run_guard)
  also have "\<dots> = Inr (run_state (40640689 / 15552000) (411527204377 / 7962624000) 5 (2280269143 / 530841600))"
    by simp
  finally show ?thesis .
qed

text \<open>
  In each of the first five months the two minimum payments of 10 use up the pool of 20:
  no extra payment is made.
\<close>

lemma two_loans_pool_first_months:
  "snd (snd (pay_minimums (run_loans (50) (100)) (0) 20)) = 0 \<and>
   snd (snd (pay_minimums (run_loans (245 / 6) (1085 / 12)) (5 / 4) 20)) = 0 \<and>
   snd (snd (pay_minimums (run_loans (2269 / 72) (46537 / 576)) (443 / 192) 20)) = 0 \<and>
   snd (snd (pay_minimums (run_loans (95209 / 4320) (9833017 / 138240)) (29207 / 9216) 20)) = 0 \<and>
   snd (snd (pay_minimums (run_loans (3215749 / 259200) (2037981097 / 33177600)) (14129441 / 3686400) 20)) = 0"
  by (simp add: run_loans_def Let_def)

lemma two_loans_month_6_minimums:
  "pay_minimums (run_loans (40640689 / 15552000) (411527204377 / 7962624000))
      (2280269143 / 530841600) 20 =
     (run_loans 0 (80067758654857 / 1911029760000), 2901242750083 / 637009920000,
      6852117971 / 933120000)"
  by (simp add: run_loans_def Let_def)

lemma two_loans_month_6_target:
  "select_target (run_loans 0 (80067758654857 / 1911029760000)) = Inr (Some 1)"
  by (simp add: run_loans_def select_target_def)

text \<open>
  The roll-over of month 6. No extra payment is made in the first five months
  (\<open>two_loans_pool_first_months\<close>). In month 6 the 20 percent loan pays its remaining
  balance as its minimum payment and is paid off; the pool keeps 6852117971/933120000
  (about 7.34), and as the first loan has no balance left, the extra payment rolls over to
  the next loan with a positive balance, the 5 percent loan at position 1.
\<close>

lemma two_loans_month_6_rollover:
  "avalanche_order two_loans = run_loans 50 100 \<and>
   simulate_iter 5 20
     \<lparr>st_loans = avalanche_order two_loans, st_months = 0, st_total_interest = 0\<rparr> =
     Inr (run_state (40640689 / 15552000) (411527204377 / 7962624000) 5
            (2280269143 / 530841600)) \<and>
   pay_minimums (run_loans (40640689 / 15552000) (411527204377 / 7962624000))
      (2280269143 / 530841600) 20 =
     (run_loans 0 (80067758654857 / 1911029760000), 2901242750083 / 637009920000,
      6852117971 / 933120000) \<and>
   (0::rat) < max 0 (6852117971 / 933120000) \<and>
   select_target (run_loans 0 (80067758654857 / 1911029760000)) = Inr (Some 1) \<and>
   rate (run_loans 0 (80067758654857 / 1911029760000) ! 1) = 5"
  by (simp add: two_loans_orders two_loans_five_months [unfolded run_state_def]
        two_loans_month_6_minimums two_loans_month_6_target run_state_def)
     (simp add: run_loans_def)

text \<open>
  The first loan of the list has priority for the extra payment: it is the target as long
  as its balance is positive.
\<close>

lemma select_target_first: "0 < balance l \<Longrightarrow> select_target (l # ls) = Inr (Some 0)"
  by (simp add: select_target_def)



section \<open>The loans of the caller are not mutated\<close>

lemma upt_Suc_Cons: "[n ..< Suc (n + k)] = n # [Suc n ..< Suc (n + k)]"
  by (rule upt_conv_Cons) simp

lemma copy_loans_eq:
  "list_all (\<lambda>a. a < length h) as \<Longrightarrow>
   copy_loans h as = (h @ map ((!) h) as, [length h ..< length h + length as])"
proof (induction as arbitrary: h)
  case Nil
  show ?case by simp
next
  case (Cons a as)
  let ?h1 = "h @ [h ! a]"
  from Cons.prems have as: "list_all (\<lambda>a. a < length h) as" by simp
  then have "list_all (\<lambda>a. a < length ?h1) as"
    by (simp add: list_all_iff less_Suc_eq)
  from Cons.IH [OF this]
  have "copy_loans ?h1 as = (?h1 @ map ((!) ?h1) as, [length ?h1 ..< length ?h1 + length as])" .
  moreover from as have "map ((!) ?h1) as = map ((!) h) as"
    by (simp add: list_all_iff nth_append)
  ultimately show ?case
    by (simp add: copy_loan_def upt_Suc_Cons del: upt_Suc)
qed

lemma pay_minimums_st_refines:
  "pay_minimums_st [length h + length pre ..< length h + length pre + length ls]
      (h @ pre @ ls) ti el =
     (case pay_minimums ls ti el of (ls', ti', el') \<Rightarrow> (h @ pre @ ls', ti', el'))"
proof (induction ls arbitrary: pre ti el)
  case Nil
  show ?case by simp
next
  case (Cons l ls)
  let ?a = "length h + length pre"
  have rd: "\<And>x. (h @ pre @ x # ls) ! ?a = x"
    by (simp add: nth_append)
  have wr: "\<And>x y. (h @ pre @ x # ls)[?a := y] = h @ pre @ y # ls"
    by (simp add: list_update_append)
  have ih: "\<And>x ti el. pay_minimums_st [Suc ?a ..< Suc (?a + length ls)] (h @ pre @ x # ls) ti el =
      (case pay_minimums ls ti el of (ls', ti', el') \<Rightarrow> (h @ pre @ x # ls', ti', el'))"
    using Cons.IH [of "pre @ [x]" for x] by (simp del: upt_Suc)
  show ?case
    by (simp add: upt_Suc_Cons rd wr ih Let_def del: upt_Suc split: prod.splits)
qed


lemma find_first_positive:
  "find (\<lambda>a. 0 < balance ((h @ pre @ ls) ! a))
      [length h + length pre ..< length h + length pre + length ls] =
     map_option (\<lambda>i. length h + length pre + i) (first_positive ls)"
proof (induction ls arbitrary: pre)
  case Nil
  show ?case by simp
next
  case (Cons l ls)
  let ?a = "length h + length pre"
  have rd: "(h @ pre @ l # ls) ! ?a = l"
    by (simp add: nth_append)
  have ih: "find (\<lambda>a. 0 < balance ((h @ pre @ l # ls) ! a)) [Suc ?a ..< Suc (?a + length ls)] =
      map_option (\<lambda>i. Suc (?a + i)) (first_positive ls)"
    using Cons.IH [of "pre @ [l]"] by (simp del: upt_Suc)
  show ?case
    by (simp add: upt_Suc_Cons rd ih option.map_comp comp_def del: upt_Suc)
qed

lemma select_target_st_refines:
  "select_target_st [length h ..< length h + length ls] (h @ ls) =
     (case select_target ls of
        Inl e \<Rightarrow> Inl e
      | Inr t \<Rightarrow> Inr (map_option (\<lambda>i. length h + i) t))"
proof (cases ls)
  case Nil
  then show ?thesis by (simp add: select_target_st_def select_target_def)
next
  case (Cons l ls')
  have f: "find (\<lambda>a. 0 < balance ((h @ ls) ! a)) [length h ..< length h + length ls] =
      map_option (\<lambda>i. length h + i) (first_positive ls)"
    using find_first_positive [of h "[]" ls] by simp
  have refs: "[length h ..< length h + length ls] = length h # [Suc (length h) ..< length h + length ls]"
    using Cons by (simp add: upt_Suc_Cons del: upt_Suc)
  have rd: "(h @ ls) ! length h = l"
    using Cons by simp
  show ?thesis
  proof (cases "0 < balance l")
    case True
    with Cons rd refs show ?thesis
      by (simp add: select_target_st_def select_target_def del: upt_Suc)
  next
    case False
    let ?r = "[Suc (length h) ..< length h + length ls]"
    have "select_target_st (length h # ?r) (h @ ls) =
        Inr (find (\<lambda>a. 0 < balance ((h @ ls) ! a)) (length h # ?r))"
      using rd False by (simp add: select_target_st_def)
    then have "select_target_st [length h ..< length h + length ls] (h @ ls) =
        Inr (find (\<lambda>a. 0 < balance ((h @ ls) ! a)) [length h ..< length h + length ls])"
      by (simp only: refs [symmetric])
    with False Cons f show ?thesis
      by (simp add: select_target_def del: upt_Suc)
  qed
qed

lemma apply_extra_st_refines:
  "apply_extra_st [length h ..< length h + length ls] (h @ ls) el =
     (case apply_extra ls el of Inl e \<Rightarrow> Inl e | Inr ls' \<Rightarrow> Inr (h @ ls'))"
proof (cases "select_target ls")
  case (Inl e)
  then show ?thesis
    by (simp add: apply_extra_st_def apply_extra_def select_target_st_refines)
next
  case (Inr t)
  show ?thesis
  proof (cases t)
    case None
    with Inr show ?thesis
      by (simp add: apply_extra_st_def apply_extra_def select_target_st_refines)
  next
    case (Some i)
    with Inr show ?thesis
      by (simp add: apply_extra_st_def apply_extra_def select_target_st_refines Let_def
            list_update_append)
  qed
qed

lemma guard_st_refines:
  "list_ex (\<lambda>a. 0 < balance ((h @ ls) ! a)) [length h ..< length h + length ls] =
     list_ex (\<lambda>l. 0 < balance l) ls"
proof -
  have "list_ex (\<lambda>a. 0 < balance ((h @ ls) ! a)) [length h ..< length h + length ls] \<longleftrightarrow>
      (\<exists>i < length ls. 0 < balance (ls ! i))"
  proof
    assume "list_ex (\<lambda>a. 0 < balance ((h @ ls) ! a)) [length h ..< length h + length ls]"
    then obtain a where a: "length h \<le> a" "a < length h + length ls"
      and p: "0 < balance ((h @ ls) ! a)"
      by (auto simp: list_ex_iff)
    from a p have "a - length h < length ls \<and> 0 < balance (ls ! (a - length h))"
      by (simp add: nth_append)
    then show "\<exists>i < length ls. 0 < balance (ls ! i)" by blast
  next
    assume "\<exists>i < length ls. 0 < balance (ls ! i)"
    then obtain i where "i < length ls" "0 < balance (ls ! i)" by blast
    then have "length h + i \<in> set [length h ..< length h + length ls] \<and>
        0 < balance ((h @ ls) ! (length h + i))"
      by simp
    then show "list_ex (\<lambda>a. 0 < balance ((h @ ls) ! a)) [length h ..< length h + length ls]"
      unfolding list_ex_iff by blast
  qed
  then show ?thesis
    by (simp add: list_ex_length)
qed

lemma month_step_st_refines:
  "month_step_st [length h ..< length h + length ls] extra (h @ ls, m, ti) =
     (case month_step extra \<lparr>st_loans = ls, st_months = m, st_total_interest = ti\<rparr> of
        Inl e \<Rightarrow> Inl e
      | Inr s \<Rightarrow> Inr (h @ st_loans s, st_months s, st_total_interest s))"
proof -
  obtain ls1 ti1 el1 where pm: "pay_minimums ls ti extra = (ls1, ti1, el1)"
    by (cases "pay_minimums ls ti extra") auto
  have len: "length ls1 = length ls"
    using pay_minimums_length [of ls ti extra] pm by simp
  have pms: "pay_minimums_st [length h ..< length h + length ls] (h @ ls) ti extra =
      (h @ ls1, ti1, el1)"
    using pay_minimums_st_refines [of h "[]" ls ti extra] pm by simp
  have ae: "\<And>el. apply_extra_st [length h ..< length h + length ls] (h @ ls1) el =
      (case apply_extra ls1 el of Inl e \<Rightarrow> Inl e | Inr ls' \<Rightarrow> Inr (h @ ls'))"
    using apply_extra_st_refines [of h ls1] by (simp add: len)
  show ?thesis
    by (simp add: month_step_st_def month_step_def pm pms ae Let_def split: sum.splits)
qed


lemma simulate_loop_st_refines:
  "simulate_loop_st [length h ..< length h + length (st_loans s)] extra
      (h @ st_loans s, st_months s, st_total_interest s) =
     (case simulate_loop extra s of
        Inl e \<Rightarrow> Inl e
      | Inr s' \<Rightarrow> Inr (h @ st_loans s', st_months s', st_total_interest s'))"
proof (induction extra s rule: simulate_loop.induct)
  case (1 extra s)
  let ?refs = "[length h ..< length h + length (st_loans s)]"
  have g: "(list_ex (\<lambda>a. 0 < balance ((h @ st_loans s) ! a)) ?refs \<and> st_months s < 600) =
      sim_guard s"
    by (simp only: guard_st_refines sim_guard_def)
  have ms: "month_step_st ?refs extra (h @ st_loans s, st_months s, st_total_interest s) =
      (case month_step extra s of
         Inl e \<Rightarrow> Inl e
       | Inr s' \<Rightarrow> Inr (h @ st_loans s', st_months s', st_total_interest s'))"
  proof -
    have "\<lparr>st_loans = st_loans s, st_months = st_months s,
           st_total_interest = st_total_interest s\<rparr> = s"
      by (cases s) simp
    with month_step_st_refines [of h "st_loans s" extra "st_months s" "st_total_interest s"]
    show ?thesis by simp
  qed
  show ?case
  proof (cases "sim_guard s")
    case True
    then obtain s1 where s1: "month_step extra s = Inr s1"
      using month_step_ok sim_guard_nonempty by blast
    have len: "length (st_loans s1) = length (st_loans s)"
      using s1 by (rule month_step_length)
    from "1.IH" [OF True s1]
    have ih: "simulate_loop_st ?refs extra (h @ st_loans s1, st_months s1, st_total_interest s1) =
        (case simulate_loop extra s1 of
           Inl e \<Rightarrow> Inl e
         | Inr s' \<Rightarrow> Inr (h @ st_loans s', st_months s', st_total_interest s'))"
      by (simp only: len)
    have "simulate_loop_st ?refs extra (h @ st_loans s, st_months s, st_total_interest s) =
        simulate_loop_st ?refs extra (h @ st_loans s1, st_months s1, st_total_interest s1)"
      by (subst simulate_loop_st.simps) (simp only: g True if_True ms s1 sum.case)
    moreover have "simulate_loop extra s = simulate_loop extra s1"
      using True s1 by (rule simulate_loop_step)
    ultimately show ?thesis by (simp only: ih)
  next
    case False
    have "simulate_loop_st ?refs extra (h @ st_loans s, st_months s, st_total_interest s) =
        Inr (h @ st_loans s, st_months s, st_total_interest s)"
      by (subst simulate_loop_st.simps) (simp only: g False if_False)
    moreover have "simulate_loop extra s = Inr s"
      using False by (rule simulate_loop_done)
    ultimately show ?thesis by simp
  qed
qed

lemma simulate_st_refines:
  assumes "list_all (\<lambda>a. a < length h) loans"
  shows "\<exists>ls m ti. simulate_st h loans extra = Inr (h @ ls, m, ti) \<and>
           simulate (map ((!) h) loans) extra = Inr (m, ti)"
proof -
  let ?vs = "map ((!) h) loans"
  let ?s = "\<lparr>st_loans = ?vs, st_months = 0, st_total_interest = 0\<rparr>"
  obtain s' where s': "simulate_loop extra ?s = Inr s'"
    using simulate_loop_ok [of ?s extra] by auto
  have "simulate_st h loans extra =
      simulate_loop_st [length h ..< length h + length loans] extra (h @ ?vs, 0, 0)"
    by (simp add: simulate_st_def copy_loans_eq [OF assms])
  also have "\<dots> = Inr (h @ st_loans s', st_months s', st_total_interest s')"
    using simulate_loop_st_refines [of h ?s extra] s' by simp
  finally show ?thesis
    using s' by (simp add: simulate_def)
qed

lemma insort_key_map:
  "map f (insort_key (\<lambda>x. k (f x)) a xs) = insort_key k (f a) (map f xs)"
  by (induction xs) simp_all

lemma sort_key_map: "map f (sort_key (\<lambda>x. k (f x)) xs) = sort_key k (map f xs)"
  by (induction xs) (simp_all add: insort_key_map)

lemma py_sorted_map: "map f (py_sorted (\<lambda>x. k (f x)) r xs) = py_sorted k r (map f xs)"
  by (simp add: py_sorted_def rev_map [symmetric] sort_key_map)

lemma py_sorted_list_all: "list_all P (py_sorted k r xs) = list_all P xs"
  by (simp add: py_sorted_def list_all_iff)

text \<open>
  C3. Let every address in the caller's list be an address of the store. Then
  \<open>simulate\<close>, \<open>snowball\<close> and \<open>avalanche\<close> return, and in the store they leave every
  dictionary that existed before the call is as it was: name, balance, rate and
  min_payment of every loan of the caller are unchanged. All writes go to the copies made
  on entry. The result is the one of the functions on values, applied to the loans read
  from the store.
\<close>

theorem C3_callers_loans_unchanged:
  assumes "list_all (\<lambda>a. a < length h) loans"
  shows "(\<exists>h' m ti. simulate_st h loans extra = Inr (h', m, ti) \<and> take (length h) h' = h \<and>
            simulate (map ((!) h) loans) extra = Inr (m, ti)) \<and>
         (\<exists>h' m ti. snowball_st h loans extra = Inr (h', m, ti) \<and> take (length h) h' = h \<and>
            snowball (map ((!) h) loans) extra = Inr (m, ti)) \<and>
         (\<exists>h' m ti. avalanche_st h loans extra = Inr (h', m, ti) \<and> take (length h) h' = h \<and>
            avalanche (map ((!) h) loans) extra = Inr (m, ti))"
proof (intro conjI)
  from simulate_st_refines [OF assms, of extra]
  show "\<exists>h' m ti. simulate_st h loans extra = Inr (h', m, ti) \<and> take (length h) h' = h \<and>
      simulate (map ((!) h) loans) extra = Inr (m, ti)"
    by auto
next
  let ?sorted = "py_sorted (\<lambda>x. balance (h ! x)) False loans"
  from assms have "list_all (\<lambda>a. a < length h) ?sorted"
    by (simp only: py_sorted_list_all)
  from simulate_st_refines [OF this, of extra]
  obtain ls m ti where "simulate_st h ?sorted extra = Inr (h @ ls, m, ti)"
    and "simulate (map ((!) h) ?sorted) extra = Inr (m, ti)"
    by blast
  moreover have "map ((!) h) ?sorted = snowball_order (map ((!) h) loans)"
    unfolding snowball_order_def by (rule py_sorted_map)
  ultimately show "\<exists>h' m ti. snowball_st h loans extra = Inr (h', m, ti) \<and>
      take (length h) h' = h \<and> snowball (map ((!) h) loans) extra = Inr (m, ti)"
    by (simp add: snowball_st_def snowball_def)
next
  let ?sorted = "py_sorted (\<lambda>x. rate (h ! x)) True loans"
  from assms have "list_all (\<lambda>a. a < length h) ?sorted"
    by (simp only: py_sorted_list_all)
  from simulate_st_refines [OF this, of extra]
  obtain ls m ti where "simulate_st h ?sorted extra = Inr (h @ ls, m, ti)"
    and "simulate (map ((!) h) ?sorted) extra = Inr (m, ti)"
    by blast
  moreover have "map ((!) h) ?sorted = avalanche_order (map ((!) h) loans)"
    unfolding avalanche_order_def by (rule py_sorted_map)
  ultimately show "\<exists>h' m ti. avalanche_st h loans extra = Inr (h', m, ti) \<and>
      take (length h) h' = h \<and> avalanche (map ((!) h) loans) extra = Inr (m, ti)"
    by (simp add: avalanche_st_def avalanche_def)
qed

text \<open>
  C3, witness: a store that holds the two loans of the two-loan input, and the list of
  their addresses.
\<close>

theorem C3_witness:
  "(\<exists>h' m ti. simulate_st two_loans [0, 1] 20 = Inr (h', m, ti) \<and>
            take (length two_loans) h' = two_loans \<and>
            simulate (map ((!) two_loans) [0, 1]) 20 = Inr (m, ti)) \<and>
         (\<exists>h' m ti. snowball_st two_loans [0, 1] 20 = Inr (h', m, ti) \<and>
            take (length two_loans) h' = two_loans \<and>
            snowball (map ((!) two_loans) [0, 1]) 20 = Inr (m, ti)) \<and>
         (\<exists>h' m ti. avalanche_st two_loans [0, 1] 20 = Inr (h', m, ti) \<and>
            take (length two_loans) h' = two_loans \<and>
            avalanche (map ((!) two_loans) [0, 1]) 20 = Inr (m, ti))"
proof -
  have h1: "list_all (\<lambda>a. a < length two_loans) [0, 1]" by (simp add: two_loans_def)
  show ?thesis
    by (rule C3_callers_loans_unchanged [OF h1])
qed

end
